theory Spec2Isabelle
  imports Main "HOL-Library.Word"
begin

unbundle bit_operations_syntax

section \<open>The HyBi sender of lib/Sender.js\<close>

text \<open>
  The sender turns messages into WebSocket frames and writes them to a socket. The model
  follows lib/Sender.js function by function. Buffers live in a store (a list of byte
  lists, addressed by position), because masking may overwrite the payload buffer in
  place; the socket, the callbacks that were invoked, the error events that were emitted
  and the deflate streams that are still running are fields of the sender's state.
\<close>

subsection \<open>Bytes, numbers and buffers\<close>

type_synonym byte = "8 word"
type_synonym bytes = "byte list"
type_synonym addr = nat
type_synonym callback = nat
type_synonym mask = "byte \<times> byte \<times> byte \<times> byte"

datatype error = InvalidCloseCode | SocketError | DeflateError

text \<open>
  A JavaScript bitwise operator first converts its operand to a signed 32-bit integer;
  \<open>>>\<close> is the arithmetic shift; storing a number into a Buffer element keeps its low
  eight bits.
\<close>

definition toInt32 :: "int \<Rightarrow> 32 word" where
  "toInt32 v = word_of_int v"

definition toUint8 :: "32 word \<Rightarrow> byte" where
  "toUint8 w = ucast w"

text \<open>\<open>new Buffer(n)\<close>: \<open>n\<close> bytes; the code overwrites every one of them.\<close>

definition new_Buffer :: "nat \<Rightarrow> bytes" where
  "new_Buffer n = replicate n 0"

text \<open>
  \<open>writeUInt16BE\<close> and \<open>writeUInt32BE\<close> of Sender.js, with \<open>this\<close> as the first
  argument. An element store beyond the end of a Buffer is ignored, as \<open>xs[i := v]\<close> is.
\<close>

definition writeUInt16BE :: "bytes \<Rightarrow> int \<Rightarrow> nat \<Rightarrow> bytes" where
  "writeUInt16BE this v offset =
     (this[offset := toUint8 (signed_drop_bit 8 (toInt32 v AND 0xff00))])
          [offset + 1 := toUint8 (toInt32 v AND 0xff)]"

definition writeUInt32BE :: "bytes \<Rightarrow> int \<Rightarrow> nat \<Rightarrow> bytes" where
  "writeUInt32BE this v offset =
     (((this[offset := toUint8 (signed_drop_bit 24 (toInt32 v AND 0xff000000))])
          [offset + 1 := toUint8 (signed_drop_bit 16 (toInt32 v AND 0xff0000))])
          [offset + 2 := toUint8 (signed_drop_bit 8 (toInt32 v AND 0xff00))])
          [offset + 3 := toUint8 (toInt32 v AND 0xff)]"

text \<open>\<open>source.copy(target, targetStart)\<close> of Node's Buffer.\<close>

definition buffer_copy :: "bytes \<Rightarrow> bytes \<Rightarrow> nat \<Rightarrow> bytes" where
  "buffer_copy source target targetStart =
     (if length target \<le> targetStart then target
      else take targetStart target
           @ take (length target - targetStart) source
           @ drop (targetStart + length source) target)"

text \<open>
  \<open>buf.slice(start, end)\<close> of Node's Buffer: an index that is negative counts from the
  end, and both are clamped to the buffer.
\<close>

definition clamp_index :: "int \<Rightarrow> nat \<Rightarrow> nat" where
  "clamp_index index len =
     (if index \<ge> int len then len
      else if index \<ge> 0 then nat index
      else if index + int len \<ge> 0 then nat (index + int len)
      else 0)"

definition buffer_slice :: "bytes \<Rightarrow> int \<Rightarrow> int \<Rightarrow> bytes" where
  "buffer_slice buf start end' =
     (let s = clamp_index start (length buf); e = clamp_index end' (length buf)
      in take (e - s) (drop s buf))"

text \<open>
  A string is the byte sequence of its UTF-8 encoding; \<open>new Buffer(str)\<close> and
  \<open>Buffer.byteLength(str)\<close> read it so.
\<close>

definition utf8 :: "string \<Rightarrow> bytes" where
  "utf8 str = map (\<lambda>c. of_nat (of_char c)) str"

text \<open>\<open>buf.write(str, offset)\<close>: the bytes of the string, as many as fit.\<close>

definition buffer_write :: "bytes \<Rightarrow> string \<Rightarrow> nat \<Rightarrow> bytes" where
  "buffer_write buf str offset = buffer_copy (utf8 str) buf offset"

text \<open>\<open>getRandomMask\<close> returns four bytes; byte \<open>i mod 4\<close> of a mask.\<close>

fun mask_at :: "mask \<Rightarrow> nat \<Rightarrow> byte" where
  "mask_at (m0, m1, m2, m3) i =
     (if i mod 4 = 0 then m0 else if i mod 4 = 1 then m1
      else if i mod 4 = 2 then m2 else m3)"

text \<open>
  Modelled from the spec: \<open>bufferUtil.mask(source, mask, output, offset, length)\<close> of
  lib/BufferUtil, which is not among the sources. The spec: "XOR every payload byte with
  \<open>mask[i % 4]\<close>"; the result goes to \<open>output\<close> from \<open>offset\<close> on. The loop runs over
  \<open>i = 0 .. length - 1\<close>.
\<close>

primrec bufferUtil_mask :: "bytes \<Rightarrow> mask \<Rightarrow> bytes \<Rightarrow> nat \<Rightarrow> nat \<Rightarrow> bytes" where
  "bufferUtil_mask source m output offset 0 = output"
| "bufferUtil_mask source m output offset (Suc i) =
     (bufferUtil_mask source m output offset i)[offset + i := (source ! i) XOR mask_at m i]"

subsection \<open>The values a caller passes\<close>

text \<open>
  The payload argument: a falsy value other than the empty string (\<open>undefined\<close>,
  \<open>null\<close>), a string, a Buffer (a reference into the store), or an ArrayBuffer or
  typed-array view, given by the bytes of its underlying ArrayBuffer, its byte offset and
  its byte length (a bare ArrayBuffer has offset 0; one of length 0 is outside the model).
\<close>

datatype js_data =
    JUndefined
  | JString string
  | JBuffer addr
  | JArrayView bytes nat nat

text \<open>\<open>!message_data\<close>: the empty string is falsy, every object is truthy.\<close>

fun is_falsy :: "js_data \<Rightarrow> bool" where
  "is_falsy JUndefined = True"
| "is_falsy (JString str) = (str = [])"
| "is_falsy (JBuffer a) = False"
| "is_falsy (JArrayView b off len) = False"

text \<open>\<open>data || ''\<close> of ping and pong.\<close>

definition or_empty_string :: "js_data \<Rightarrow> js_data" where
  "or_empty_string d = (if is_falsy d then JString [] else d)"

text \<open>
  \<open>getArrayBuffer\<close>: a new Buffer of \<open>l\<close> bytes, filled from \<open>array[o + i]\<close>; an
  element read beyond the array gives \<open>undefined\<close>, stored as 0.
\<close>

primrec getArrayBuffer_loop :: "bytes \<Rightarrow> nat \<Rightarrow> bytes \<Rightarrow> nat \<Rightarrow> bytes" where
  "getArrayBuffer_loop array o' buffer 0 = buffer"
| "getArrayBuffer_loop array o' buffer (Suc i) =
     (getArrayBuffer_loop array o' buffer i)
        [i := (if o' + i < length array then array ! (o' + i) else 0)]"

definition getArrayBuffer :: "bytes \<Rightarrow> nat \<Rightarrow> nat \<Rightarrow> bytes" where
  "getArrayBuffer array o' l = getArrayBuffer_loop array o' (new_Buffer l) l"

text \<open>The options object of send, ping and pong; \<open>fin\<close> may be absent.\<close>

record send_options =
  opt_fin :: "bool option"
  opt_mask :: bool
  opt_binary :: bool
  opt_compress :: bool

text \<open>The code argument of close: absent, a number, or a value that is not a number.\<close>

datatype js_code = CodeUndefined | CodeNumber int | CodeNotNumber

subsection \<open>The sender's state\<close>

text \<open>
  What the closure \<open>_frame_and_send\<close> captures from its call of \<open>frameAndSend\<close>.
\<close>

record closure =
  c_opcode :: byte
  c_finalFragment :: bool
  c_maskData :: bool
  c_canModifyData :: bool
  c_compress :: bool
  c_cb :: "callback option"

text \<open>A running deflate stream: its closure and the chunks gathered so far.\<close>

record job =
  j_closure :: closure
  j_cdata :: bytes

record sender =
  firstFragment :: bool
  randomMask :: "mask option"
  store :: "bytes list"
  socket_broken :: bool
  written :: "(bytes \<times> callback option) list"
  cb_calls :: "(callback \<times> error) list"
  emitted :: "error list"
  uncaught :: "error list"
  pending :: "job list"

text \<open>\<open>new Sender(socket)\<close>, over a store of the caller's buffers.\<close>

definition Sender :: "bytes list \<Rightarrow> bool \<Rightarrow> sender" where
  "Sender bufs broken =
     \<lparr>firstFragment = True, randomMask = None, store = bufs, socket_broken = broken,
      written = [], cb_calls = [], emitted = [], uncaught = [], pending = []\<rparr>"

definition buf_read :: "bytes list \<Rightarrow> addr \<Rightarrow> bytes" where
  "buf_read h a = (if a < length h then h ! a else [])"

definition alloc :: "bytes \<Rightarrow> sender \<Rightarrow> addr \<times> sender" where
  "alloc b s = (length (store s), s\<lparr>store := store s @ [b]\<rparr>)"

text \<open>
  \<open>socket.write(buffer, 'binary', cb)\<close>: a broken socket throws, a working one takes
  the bytes the buffer holds at this moment, with the callback.
\<close>

definition socket_write :: "bytes \<Rightarrow> callback option \<Rightarrow> sender \<Rightarrow> error + sender" where
  "socket_write b cb s =
     (if socket_broken s then Inl SocketError
      else Inr (s\<lparr>written := written s @ [(b, cb)]\<rparr>))"

text \<open>The catch blocks: \<open>cb(e)\<close> when \<open>cb\<close> is a function, else \<open>emit('error', e)\<close>.\<close>

definition report :: "callback option \<Rightarrow> error \<Rightarrow> sender \<Rightarrow> sender" where
  "report cb e s =
     (case cb of
        Some f \<Rightarrow> s\<lparr>cb_calls := cb_calls s @ [(f, e)]\<rparr>
      | None \<Rightarrow> s\<lparr>emitted := emitted s @ [e]\<rparr>)"

definition try_write :: "bytes \<Rightarrow> callback option \<Rightarrow> sender \<Rightarrow> sender" where
  "try_write b cb s =
     (case socket_write b cb s of Inl e \<Rightarrow> report cb e s | Inr s' \<Rightarrow> s')"

definition try_write2 :: "bytes \<Rightarrow> bytes \<Rightarrow> callback option \<Rightarrow> sender \<Rightarrow> sender" where
  "try_write2 b1 b2 cb s =
     (case socket_write b1 None s of
        Inl e \<Rightarrow> report cb e s
      | Inr s1 \<Rightarrow>
          (case socket_write b2 cb s1 of Inl e \<Rightarrow> report cb e s1 | Inr s2 \<Rightarrow> s2))"

subsection \<open>Framing\<close>

text \<open>
  The closure \<open>_frame_and_send(data)\<close>. \<open>fresh\<close> is what \<open>getRandomMask()\<close> returns
  if it is called; \<open>a\<close> is the address of \<open>data\<close>. The header offset, the length
  marker and the header bytes are computed by the definitions that come first; the four
  branches (masked or not, one write or two) are in \<open>frame_and_send_inner\<close>.
\<close>

definition dataOffset_of :: "bool \<Rightarrow> nat \<Rightarrow> nat" where
  "dataOffset_of maskData dataLength =
     (let dataOffset = (if maskData then 6 else 2)
      in if dataLength \<ge> 65536 then dataOffset + 8
         else if dataLength > 125 then dataOffset + 2
         else dataOffset)"

definition secondByte_of :: "nat \<Rightarrow> nat" where
  "secondByte_of dataLength =
     (let secondByte = dataLength
      in if dataLength \<ge> 65536 then 127
         else if dataLength > 125 then 126
         else secondByte)"

text \<open>The output buffer after its first byte and the \<open>switch (secondByte)\<close>.\<close>

definition header_bytes0 :: "closure \<Rightarrow> nat \<Rightarrow> nat \<Rightarrow> bytes" where
  "header_bytes0 cl totalLength dataLength =
     (let outputBuffer = new_Buffer totalLength;
          outputBuffer = outputBuffer[0 :=
            (if c_finalFragment cl then c_opcode cl OR 0x80 else c_opcode cl)];
          outputBuffer =
            (if c_compress cl then outputBuffer[0 := (outputBuffer ! 0) OR 0x40]
             else outputBuffer)
      in if secondByte_of dataLength = 126 then writeUInt16BE outputBuffer (int dataLength) 2
         else if secondByte_of dataLength = 127 then
           writeUInt32BE (writeUInt32BE outputBuffer 0 2) (int dataLength) 6
         else outputBuffer)"

text \<open>The second byte and the mask bytes of the \<open>if (maskData)\<close> branch.\<close>

definition masked_header :: "closure \<Rightarrow> mask \<Rightarrow> nat \<Rightarrow> nat \<Rightarrow> bytes" where
  "masked_header cl mask' totalLength dataLength =
     (let dataOffset = dataOffset_of True dataLength;
          outputBuffer = header_bytes0 cl totalLength dataLength;
          outputBuffer = outputBuffer[1 := of_nat (secondByte_of dataLength) OR 0x80];
          outputBuffer = outputBuffer[dataOffset - 4 := mask_at mask' 0];
          outputBuffer = outputBuffer[dataOffset - 3 := mask_at mask' 1];
          outputBuffer = outputBuffer[dataOffset - 2 := mask_at mask' 2];
          outputBuffer = outputBuffer[dataOffset - 1 := mask_at mask' 3]
      in outputBuffer)"

text \<open>The second byte of the \<open>else\<close> branch.\<close>

definition plain_header :: "closure \<Rightarrow> nat \<Rightarrow> nat \<Rightarrow> bytes" where
  "plain_header cl totalLength dataLength =
     (header_bytes0 cl totalLength dataLength)[1 := of_nat (secondByte_of dataLength)]"

definition frame_and_send_inner :: "closure \<Rightarrow> mask \<Rightarrow> addr \<Rightarrow> sender \<Rightarrow> sender" where
  "frame_and_send_inner cl fresh a s =
     (let data = buf_read (store s) a;
          dataLength = length data;
          dataOffset = dataOffset_of (c_maskData cl) dataLength;
          mergeBuffers = (dataLength < 32768 \<or> (c_maskData cl \<and> \<not> c_canModifyData cl));
          totalLength = (if mergeBuffers then dataLength + dataOffset else dataOffset)
      in if c_maskData cl then
           (let mask' = (case randomMask s of Some m \<Rightarrow> m | None \<Rightarrow> fresh);
                s = s\<lparr>randomMask := Some mask'\<rparr>;
                outputBuffer = masked_header cl mask' totalLength dataLength
            in if mergeBuffers then
                 try_write (bufferUtil_mask data mask' outputBuffer dataOffset dataLength)
                   (c_cb cl) s
               else
                 (let data' = bufferUtil_mask data mask' data 0 dataLength;
                      s = s\<lparr>store := (store s)[a := data']\<rparr>
                  in try_write2 outputBuffer data' (c_cb cl) s))
         else
           (let outputBuffer = plain_header cl totalLength dataLength
            in if mergeBuffers then
                 try_write (buffer_copy data outputBuffer dataOffset) (c_cb cl) s
               else try_write2 outputBuffer data (c_cb cl) s))"

text \<open>
  \<open>frameAndSend\<close>. A payload that is not a Buffer is converted into a new one, which
  the sender may modify. With \<open>compress\<close>, the call only starts a deflate stream; the
  frame is built when the stream ends.
\<close>

definition frameAndSend ::
  "mask \<Rightarrow> byte \<Rightarrow> js_data \<Rightarrow> bool \<Rightarrow> bool \<Rightarrow> bool \<Rightarrow> callback option \<Rightarrow> sender \<Rightarrow> sender"
where
  "frameAndSend fresh opcode message_data finalFragment maskData compress cb s =
     (if is_falsy message_data then
        try_write
          ([opcode OR (if finalFragment then 0x80 else 0), 0 OR (if maskData then 0x80 else 0)]
           @ (if maskData then [0, 0, 0, 0] else []))
          cb s
      else
        (let (canModifyData, a, s) =
               (case message_data of
                  JBuffer a \<Rightarrow> (False, a, s)
                | JArrayView array o' l \<Rightarrow>
                    (let (a, s) = alloc (getArrayBuffer array o' l) s in (True, a, s))
                | JString str \<Rightarrow> (let (a, s) = alloc (utf8 str) s in (True, a, s))
                | JUndefined \<Rightarrow> (let (a, s) = alloc [] s in (True, a, s)));
             cl = \<lparr>c_opcode = opcode, c_finalFragment = finalFragment, c_maskData = maskData,
                   c_canModifyData = canModifyData, c_compress = compress, c_cb = cb\<rparr>
         in if compress then s\<lparr>pending := pending s @ [\<lparr>j_closure = cl, j_cdata = []\<rparr>]\<rparr>
            else frame_and_send_inner cl fresh a s))"

subsection \<open>The deflate stream's events\<close>

text \<open>
  The stream is zlib's: the model takes what it emits as given. Stream \<open>i\<close> is the
  \<open>i\<close>-th of the pending ones. On \<open>data\<close> the chunk is appended
  (\<open>Buffer.concat([cdata, chunk])\<close>); on \<open>end\<close> the closure is called with
  \<open>cdata.slice(0, -6)\<close>; on \<open>error\<close> the handler throws, out of the event loop.
\<close>

definition on_data :: "job \<Rightarrow> bytes \<Rightarrow> job" where
  "on_data j chunk = j\<lparr>j_cdata := concat [j_cdata j, chunk]\<rparr>"

definition on_end :: "mask \<Rightarrow> job \<Rightarrow> sender \<Rightarrow> sender" where
  "on_end fresh j s =
     (let (a, s) = alloc (buffer_slice (j_cdata j) 0 (- 6)) s
      in frame_and_send_inner (j_closure j) fresh a s)"

definition on_error :: "job \<Rightarrow> error \<Rightarrow> sender \<Rightarrow> sender" where
  "on_error j err s = s\<lparr>uncaught := uncaught s @ [err]\<rparr>"

definition remove_nth :: "nat \<Rightarrow> 'a list \<Rightarrow> 'a list" where
  "remove_nth i xs = take i xs @ drop (Suc i) xs"

definition stream_data :: "nat \<Rightarrow> bytes \<Rightarrow> sender \<Rightarrow> sender" where
  "stream_data i chunk s =
     (if i < length (pending s)
      then s\<lparr>pending := (pending s)[i := on_data (pending s ! i) chunk]\<rparr> else s)"


definition stream_error :: "nat \<Rightarrow> error \<Rightarrow> sender \<Rightarrow> sender" where
  "stream_error i err s =
     (if i < length (pending s)
      then on_error (pending s ! i) err (s\<lparr>pending := remove_nth i (pending s)\<rparr>) else s)"

subsection \<open>The public operations\<close>

text \<open>
  \<open>close(code, data, mask)\<close>. \<open>isValidErrorCode\<close> belongs to lib/ErrorCodes, which is
  not among the sources: it is a parameter. The throw is the result \<open>Inl\<close>. A reason
  that is absent is the empty string (both are falsy).
\<close>

definition close ::
  "(int \<Rightarrow> bool) \<Rightarrow> mask \<Rightarrow> js_code \<Rightarrow> string \<Rightarrow> bool \<Rightarrow> sender \<Rightarrow> error + sender"
where
  "close isValidErrorCode fresh code data mask' s =
     (if code \<noteq> CodeUndefined \<and>
         (case code of CodeNumber c \<Rightarrow> \<not> isValidErrorCode c | _ \<Rightarrow> True)
      then Inl InvalidCloseCode
      else
        (let code = (case code of CodeNumber c \<Rightarrow> (if c = 0 then 1000 else c) | _ \<Rightarrow> 1000);
             dataBuffer = new_Buffer (2 + (if data \<noteq> [] then length (utf8 data) else 0));
             dataBuffer = writeUInt16BE dataBuffer code 0;
             dataBuffer = (if length dataBuffer > 2 then buffer_write dataBuffer data 2
                           else dataBuffer);
             (a, s) = alloc dataBuffer s
         in Inr (frameAndSend fresh 0x8 (JBuffer a) True mask' False None s)))"

definition ping :: "mask \<Rightarrow> js_data \<Rightarrow> send_options option \<Rightarrow> sender \<Rightarrow> sender" where
  "ping fresh data options s =
     (let mask' = (case options of None \<Rightarrow> False | Some opts \<Rightarrow> opt_mask opts)
      in frameAndSend fresh 0x9 (or_empty_string data) True mask' False None s)"

definition pong :: "mask \<Rightarrow> js_data \<Rightarrow> send_options option \<Rightarrow> sender \<Rightarrow> sender" where
  "pong fresh data options s =
     (let mask' = (case options of None \<Rightarrow> False | Some opts \<Rightarrow> opt_mask opts)
      in frameAndSend fresh 0xa (or_empty_string data) True mask' False None s)"

definition send ::
  "mask \<Rightarrow> js_data \<Rightarrow> send_options option \<Rightarrow> callback option \<Rightarrow> sender \<Rightarrow> sender"
where
  "send fresh data options cb s =
     (let finalFragment =
            (case options of None \<Rightarrow> True | Some opts \<Rightarrow> opt_fin opts \<noteq> Some False);
          mask' = (case options of None \<Rightarrow> False | Some opts \<Rightarrow> opt_mask opts);
          opcode = (case options of None \<Rightarrow> 1 | Some opts \<Rightarrow> (if opt_binary opts then 2 else 1));
          compress = (case options of None \<Rightarrow> False | Some opts \<Rightarrow> opt_compress opts);
          (opcode, s) = (if firstFragment s = False then (0, s)
                         else (opcode, s\<lparr>firstFragment := False\<rparr>));
          s = (if finalFragment then s\<lparr>firstFragment := True\<rparr> else s)
      in frameAndSend fresh opcode data finalFragment mask' compress cb s)"

section \<open>The wire format\<close>

text \<open>
  What a frame looks like on the wire (RFC 6455, as the specification draws it), read
  the way a receiver does: the opcode in the low four bits of the first byte, the mask
  bit and the seven length bits in the second, the extended length in two or eight bytes,
  big-endian, then the mask key, then the payload.
\<close>

text \<open>The big-endian bytes of a number, \<open>k\<close> of them, and the number of such bytes.\<close>

primrec be_bytes :: "nat \<Rightarrow> nat \<Rightarrow> bytes" where
  "be_bytes 0 n = []"
| "be_bytes (Suc k) n = be_bytes k (n div 256) @ [of_nat n]"

definition be_nat :: "bytes \<Rightarrow> nat" where
  "be_nat bs = foldl (\<lambda>acc b. acc * 256 + unat b) 0 bs"

text \<open>The fields of a frame \<open>f\<close>, as a receiver reads them.\<close>

definition wire_opcode :: "bytes \<Rightarrow> byte" where
  "wire_opcode f = (f ! 0) AND 0x0f"

definition wire_len7 :: "bytes \<Rightarrow> nat" where
  "wire_len7 f = unat ((f ! 1) AND 0x7f)"

definition wire_masked :: "bytes \<Rightarrow> bool" where
  "wire_masked f = ((f ! 1) AND 0x80 \<noteq> 0)"

definition wire_ext :: "bytes \<Rightarrow> nat" where
  "wire_ext f = (if wire_len7 f = 126 then 2 else if wire_len7 f = 127 then 8 else 0)"

definition wire_length :: "bytes \<Rightarrow> nat" where
  "wire_length f =
     (if wire_ext f = 0 then wire_len7 f else be_nat (take (wire_ext f) (drop 2 f)))"

definition wire_payload_offset :: "bytes \<Rightarrow> nat" where
  "wire_payload_offset f = 2 + wire_ext f + (if wire_masked f then 4 else 0)"

definition wire_mask :: "bytes \<Rightarrow> bytes" where
  "wire_mask f = take 4 (drop (wire_payload_offset f - 4) f)"

definition wire_payload :: "bytes \<Rightarrow> bytes" where
  "wire_payload f = drop (wire_payload_offset f) f"

text \<open>Unmasking: byte \<open>i\<close> of the payload XOR byte \<open>i mod 4\<close> of the key.\<close>

definition unmask :: "bytes \<Rightarrow> bytes \<Rightarrow> bytes" where
  "unmask key payload = map (\<lambda>i. (payload ! i) XOR (key ! (i mod 4))) [0..<length payload]"

text \<open>
  What the socket was given between the states \<open>s\<close> and \<open>s'\<close>: the writes, and their
  bytes in one sequence (the frame, when one call made them).
\<close>

definition sent :: "sender \<Rightarrow> sender \<Rightarrow> (bytes \<times> callback option) list" where
  "sent s s' = drop (length (written s)) (written s')"

definition sent_frame :: "sender \<Rightarrow> sender \<Rightarrow> bytes" where
  "sent_frame s s' = concat (map fst (sent s s'))"

text \<open>
  The mask a masked send uses: the cached one, or else the fresh one. The frame that the
  closure is shown to write for a payload (lemma \<open>inner_sent_frame\<close>): the two header
  bytes, the length bytes as the code fills them, the mask key and the masked payload, or
  the payload as it is.
\<close>

definition used_mask :: "sender \<Rightarrow> mask \<Rightarrow> mask" where
  "used_mask s fresh = (case randomMask s of Some m \<Rightarrow> m | None \<Rightarrow> fresh)"

definition xor_mask :: "mask \<Rightarrow> bytes \<Rightarrow> bytes" where
  "xor_mask m data = map (\<lambda>i. (data ! i) XOR mask_at m i) [0..<length data]"

definition length_field :: "nat \<Rightarrow> bytes" where
  "length_field n =
     (if n \<ge> 65536 then [0, 0, 0, 0] @ be_bytes 4 n
      else if n > 125 then be_bytes 2 n else [])"

definition frame_header :: "closure \<Rightarrow> mask \<Rightarrow> nat \<Rightarrow> bytes" where
  "frame_header cl m n =
     [(if c_finalFragment cl then c_opcode cl OR 0x80 else c_opcode cl)
        OR (if c_compress cl then 0x40 else 0),
      of_nat (secondByte_of n) OR (if c_maskData cl then 0x80 else 0)]
     @ length_field n
     @ (if c_maskData cl then [mask_at m 0, mask_at m 1, mask_at m 2, mask_at m 3] else [])"

definition frame_layout :: "closure \<Rightarrow> mask \<Rightarrow> bytes \<Rightarrow> bytes" where
  "frame_layout cl m data =
     frame_header cl m (length data) @ (if c_maskData cl then xor_mask m data else data)"

text \<open>The bytes that \<open>frameAndSend\<close> makes of a payload argument.\<close>

definition payload_of :: "bytes list \<Rightarrow> js_data \<Rightarrow> bytes" where
  "payload_of h d =
     (case d of
        JUndefined \<Rightarrow> []
      | JString str \<Rightarrow> utf8 str
      | JBuffer a \<Rightarrow> buf_read h a
      | JArrayView array o' l \<Rightarrow> getArrayBuffer array o' l)"

text \<open>What send reads from its options, and the closure that \<open>frameAndSend\<close> builds.\<close>

definition fin_of :: "send_options option \<Rightarrow> bool" where
  "fin_of options = (case options of None \<Rightarrow> True | Some opts \<Rightarrow> opt_fin opts \<noteq> Some False)"

definition mask_of :: "send_options option \<Rightarrow> bool" where
  "mask_of options = (case options of None \<Rightarrow> False | Some opts \<Rightarrow> opt_mask opts)"

definition compress_of :: "send_options option \<Rightarrow> bool" where
  "compress_of options = (case options of None \<Rightarrow> False | Some opts \<Rightarrow> opt_compress opts)"

definition data_opcode :: "send_options option \<Rightarrow> byte" where
  "data_opcode options =
     (case options of None \<Rightarrow> 1 | Some opts \<Rightarrow> (if opt_binary opts then 2 else 1))"

definition closure_of ::
  "byte \<Rightarrow> js_data \<Rightarrow> bool \<Rightarrow> bool \<Rightarrow> bool \<Rightarrow> callback option \<Rightarrow> closure" where
  "closure_of opcode data fin maskData compress cb =
     \<lparr>c_opcode = opcode, c_finalFragment = fin, c_maskData = maskData,
      c_canModifyData = (case data of JBuffer a \<Rightarrow> False | _ \<Rightarrow> True),
      c_compress = compress, c_cb = cb\<rparr>"

text \<open>
  The width rule of the payload length, for a payload of \<open>n\<close> bytes and a frame \<open>f\<close>.
  From 65536 bytes on, the eight length bytes are four zero bytes and the low 32 bits of
  \<open>n\<close>; below \<open>2 ^ 32\<close> that is the 8-byte big-endian \<open>n\<close>, and the length read back
  is \<open>n\<close>.
\<close>

definition length_rule :: "nat \<Rightarrow> bytes \<Rightarrow> bool" where
  "length_rule n f =
     ((n < 126 \<longrightarrow> wire_len7 f = n)
      \<and> (126 \<le> n \<and> n \<le> 65535 \<longrightarrow> wire_len7 f = 126 \<and> take 2 (drop 2 f) = be_bytes 2 n)
      \<and> (65536 \<le> n \<longrightarrow> wire_len7 f = 127 \<and> take 8 (drop 2 f) = [0, 0, 0, 0] @ be_bytes 4 n)
      \<and> (65536 \<le> n \<and> n < 2 ^ 32 \<longrightarrow> take 8 (drop 2 f) = be_bytes 8 n)
      \<and> (n < 2 ^ 32 \<longrightarrow> wire_length f = n))"

text \<open>
  The code field of a close payload: the two low bytes of the code, big-endian. The code
  that \<open>close\<close> sends: the caller's, or 1000 when it is absent or 0.
\<close>

definition code_field :: "int \<Rightarrow> bytes" where
  "code_field c = [word_of_int (c div 256), word_of_int c]"

definition code_or_default :: "js_code \<Rightarrow> int" where
  "code_or_default code =
     (case code of CodeNumber c \<Rightarrow> (if c = 0 then 1000 else c) | _ \<Rightarrow> 1000)"

section \<open>Lemmas\<close>

subsection \<open>Bytes of a number\<close>

lemma const_ff: "(0xff :: 32 word) = mask 8"
  by (simp add: mask_eq_exp_minus_1)

lemma const_ff00: "(0xff00 :: 32 word) = push_bit 8 (mask 8)"
  by (simp add: mask_eq_exp_minus_1 push_bit_eq_mult)

lemma const_ff0000: "(0xff0000 :: 32 word) = push_bit 16 (mask 8)"
  by (simp add: mask_eq_exp_minus_1 push_bit_eq_mult)

lemma const_ff000000: "(0xff000000 :: 32 word) = push_bit 24 (mask 8)"
  by (simp add: mask_eq_exp_minus_1 push_bit_eq_mult)

lemma byte_of_shift:
  "k \<le> 24 \<Longrightarrow> toUint8 (signed_drop_bit k (w AND push_bit k (mask 8))) = ucast (drop_bit k w)"
  unfolding toUint8_def
  by (rule bit_word_eqI) (auto simp: bit_simps bit_signed_drop_bit_iff)

lemma byte_of_low: "toUint8 (w AND mask 8) = ucast w"
  unfolding toUint8_def
  by (rule bit_word_eqI) (auto simp: bit_simps)

lemma ucast_drop_nat:
  "k \<le> 24 \<Longrightarrow> (ucast (drop_bit k (word_of_nat n :: 32 word)) :: byte) = of_nat (n div 2 ^ k)"
  by (rule bit_word_eqI) (auto simp: bit_simps drop_bit_eq_div[symmetric] bit_drop_bit_eq)

lemma ucast_nat: "(ucast (word_of_nat n :: 32 word) :: byte) = of_nat n"
  using ucast_drop_nat[of 0 n] by simp

lemma writeUInt16BE_nat:
  "writeUInt16BE buf (int n) off = buf[off := of_nat (n div 256), off + 1 := of_nat n]"
  unfolding writeUInt16BE_def toInt32_def const_ff const_ff00
  by (simp add: byte_of_shift byte_of_low ucast_drop_nat ucast_nat)

lemma writeUInt32BE_nat:
  "writeUInt32BE buf (int n) off =
     buf[off := of_nat (n div 256 div 256 div 256), off + 1 := of_nat (n div 256 div 256),
         off + 2 := of_nat (n div 256), off + 3 := of_nat n]"
  unfolding writeUInt32BE_def toInt32_def const_ff const_ff00 const_ff0000 const_ff000000
  by (simp add: byte_of_shift byte_of_low ucast_drop_nat ucast_nat div_mult2_eq[symmetric])

lemma writeUInt32BE_zero:
  "writeUInt32BE buf 0 off = buf[off := 0, off + 1 := 0, off + 2 := 0, off + 3 := 0]"
  using writeUInt32BE_nat[of buf 0 off] by simp

lemma be_bytes_2: "be_bytes 2 n = [of_nat (n div 256), of_nat n]"
  by (simp add: numeral_2_eq_2)

lemma be_bytes_4:
  "be_bytes 4 n =
     [of_nat (n div 256 div 256 div 256), of_nat (n div 256 div 256), of_nat (n div 256),
      of_nat n]"
proof -
  have "be_bytes (Suc (Suc (Suc (Suc 0)))) n =
     [of_nat (n div 256 div 256 div 256), of_nat (n div 256 div 256), of_nat (n div 256),
      of_nat n]"
    by simp
  moreover have "(4::nat) = Suc (Suc (Suc (Suc 0)))" by simp
  ultimately show ?thesis by metis
qed

lemma list_update_Cons_numeral:
  "(x # xs)[numeral v := y] = x # xs[numeral v - 1 := y]"
  by (simp add: numeral_eq_Suc)

lemma replicate_plus_2: "replicate (2 + k) x = x # x # replicate k x"
  by (simp add: eval_nat_numeral)

lemma replicate_plus_4: "replicate (4 + k) x = x # x # x # x # replicate k x"
  by (simp add: eval_nat_numeral)

lemma replicate_plus_6: "replicate (6 + k) x = x # x # x # x # x # x # replicate k x"
  by (simp add: eval_nat_numeral)

lemma replicate_plus_8: "replicate (8 + k) x = x # x # x # x # x # x # x # x # replicate k x"
  by (simp add: eval_nat_numeral)

lemma replicate_plus_10:
  "replicate (10 + k) x = x # x # x # x # x # x # x # x # x # x # replicate k x"
  by (simp add: eval_nat_numeral)

lemma replicate_plus_14:
  "replicate (14 + k) x =
     x # x # x # x # x # x # x # x # x # x # x # x # x # x # replicate k x"
  by (simp add: eval_nat_numeral)

lemmas replicate_plus = replicate_plus_2 replicate_plus_4 replicate_plus_6 replicate_plus_8
  replicate_plus_10 replicate_plus_14

lemma length_frame_header:
  "length (frame_header cl m n) = dataOffset_of (c_maskData cl) n"
  by (simp add: frame_header_def dataOffset_of_def length_field_def be_bytes_2 be_bytes_4)

lemma masked_header_eq:
  assumes "c_maskData cl"
  shows "masked_header cl m (dataOffset_of True n + k) n = frame_header cl m n @ replicate k 0"
proof -
  consider "n \<le> 125" | "125 < n" "n < 65536" | "65536 \<le> n" by linarith
  then show ?thesis
  proof cases
    case 1
    then show ?thesis using assms
      by (simp add: masked_header_def header_bytes0_def dataOffset_of_def secondByte_of_def
          secondByte_of_def frame_header_def length_field_def new_Buffer_def replicate_plus
          list_update_Cons_numeral Let_def)
  next
    case 2
    then show ?thesis using assms
      by (simp add: masked_header_def header_bytes0_def dataOffset_of_def secondByte_of_def
          secondByte_of_def frame_header_def length_field_def new_Buffer_def replicate_plus
          list_update_Cons_numeral Let_def writeUInt16BE_nat be_bytes_2)
  next
    case 3
    then show ?thesis using assms
      by (simp add: masked_header_def header_bytes0_def dataOffset_of_def secondByte_of_def
          secondByte_of_def frame_header_def length_field_def new_Buffer_def replicate_plus
          list_update_Cons_numeral Let_def writeUInt32BE_nat writeUInt32BE_zero be_bytes_4)
  qed
qed

lemma plain_header_eq:
  assumes "\<not> c_maskData cl"
  shows "plain_header cl (dataOffset_of False n + k) n = frame_header cl m n @ replicate k 0"
proof -
  consider "n \<le> 125" | "125 < n" "n < 65536" | "65536 \<le> n" by linarith
  then show ?thesis
  proof cases
    case 1
    then show ?thesis using assms
      by (simp add: plain_header_def header_bytes0_def dataOffset_of_def secondByte_of_def
          secondByte_of_def frame_header_def length_field_def new_Buffer_def replicate_plus
          list_update_Cons_numeral Let_def)
  next
    case 2
    then show ?thesis using assms
      by (simp add: plain_header_def header_bytes0_def dataOffset_of_def secondByte_of_def
          secondByte_of_def frame_header_def length_field_def new_Buffer_def replicate_plus
          list_update_Cons_numeral Let_def writeUInt16BE_nat be_bytes_2)
  next
    case 3
    then show ?thesis using assms
      by (simp add: plain_header_def header_bytes0_def dataOffset_of_def secondByte_of_def
          secondByte_of_def frame_header_def length_field_def new_Buffer_def replicate_plus
          list_update_Cons_numeral Let_def writeUInt32BE_nat writeUInt32BE_zero be_bytes_4)
  qed
qed

lemma length_bufferUtil_mask [simp]:
  "length (bufferUtil_mask source m output offset k) = length output"
  by (induction k) simp_all

lemma bufferUtil_mask_append:
  "k \<le> length rest \<Longrightarrow>
   bufferUtil_mask source m (hdr @ rest) (length hdr) k =
     hdr @ map (\<lambda>i. (source ! i) XOR mask_at m i) [0..<k] @ drop k rest"
proof (induction k)
  case 0
  show ?case by simp
next
  case (Suc k)
  then have k: "k < length rest" by simp
  have "drop k rest = rest ! k # drop (Suc k) rest"
    using k by (simp add: Cons_nth_drop_Suc)
  then show ?case
    using Suc k by (simp add: list_update_append)
qed

lemma bufferUtil_mask_onto:
  "length hdr = off \<Longrightarrow>
   bufferUtil_mask data m (hdr @ replicate (length data) 0) off (length data) = hdr @ xor_mask m data"
  using bufferUtil_mask_append[of "length data" "replicate (length data) 0" data m hdr]
  by (simp add: xor_mask_def)

lemma bufferUtil_mask_in_place:
  "bufferUtil_mask data m data 0 (length data) = xor_mask m data"
  using bufferUtil_mask_append[of "length data" data data m "[]"]
  by (simp add: xor_mask_def)

lemma buffer_copy_onto:
  "length hdr = off \<Longrightarrow> buffer_copy data (hdr @ replicate (length data) 0) off = hdr @ data"
  by (cases "data = []") (simp_all add: buffer_copy_def)

lemma inner_masked_merge:
  assumes "c_maskData cl" "length data < 32768 \<or> \<not> c_canModifyData cl"
    "buf_read (store s) a = data"
  shows "frame_and_send_inner cl fresh a s =
           try_write (frame_layout cl (used_mask s fresh) data) (c_cb cl)
             (s\<lparr>randomMask := Some (used_mask s fresh)\<rparr>)"
  using assms masked_header_eq[of cl "used_mask s fresh" "length data" "length data"]
  by (auto simp add: frame_and_send_inner_def Let_def used_mask_def frame_layout_def
      add.commute[of "length data"] bufferUtil_mask_onto length_frame_header)

lemma inner_masked_split:
  assumes "c_maskData cl" "\<not> length data < 32768" "c_canModifyData cl"
    "buf_read (store s) a = data"
  shows "frame_and_send_inner cl fresh a s =
           try_write2 (frame_header cl (used_mask s fresh) (length data))
             (xor_mask (used_mask s fresh) data) (c_cb cl)
             (s\<lparr>randomMask := Some (used_mask s fresh),
                store := (store s)[a := xor_mask (used_mask s fresh) data]\<rparr>)"
  using assms masked_header_eq[of cl "used_mask s fresh" "length data" 0]
  by (simp add: frame_and_send_inner_def Let_def used_mask_def bufferUtil_mask_in_place)

lemma inner_plain_merge:
  assumes "\<not> c_maskData cl" "length data < 32768" "buf_read (store s) a = data"
  shows "frame_and_send_inner cl fresh a s =
           try_write (frame_layout cl m data) (c_cb cl) s"
  using assms plain_header_eq[of cl "length data" "length data" m]
  by (simp add: frame_and_send_inner_def Let_def frame_layout_def
      add.commute[of "length data"] buffer_copy_onto length_frame_header)

lemma inner_plain_split:
  assumes "\<not> c_maskData cl" "\<not> length data < 32768" "buf_read (store s) a = data"
  shows "frame_and_send_inner cl fresh a s =
           try_write2 (frame_header cl m (length data)) data (c_cb cl) s"
  using assms plain_header_eq[of cl "length data" 0 m]
  by (simp add: frame_and_send_inner_def Let_def)

lemma sent_frame_try_write:
  "\<not> socket_broken s \<Longrightarrow> written s = written s0 \<Longrightarrow>
   sent_frame s0 (try_write b cb s) = b"
  by (simp add: sent_frame_def sent_def try_write_def socket_write_def)

lemma sent_frame_try_write2:
  "\<not> socket_broken s \<Longrightarrow> written s = written s0 \<Longrightarrow>
   sent_frame s0 (try_write2 b1 b2 cb s) = b1 @ b2"
  by (simp add: sent_frame_def sent_def try_write2_def socket_write_def)

lemma inner_sent_frame:
  assumes "\<not> socket_broken s"
  shows "sent_frame s (frame_and_send_inner cl fresh a s)
         = frame_layout cl (used_mask s fresh) (buf_read (store s) a)"
proof -
  let ?d = "buf_read (store s) a"
  consider "c_maskData cl" "length ?d < 32768 \<or> \<not> c_canModifyData cl"
    | "c_maskData cl" "\<not> length ?d < 32768" "c_canModifyData cl"
    | "\<not> c_maskData cl" "length ?d < 32768"
    | "\<not> c_maskData cl" "\<not> length ?d < 32768"
    by blast
  then show ?thesis
  proof cases
    case 1
    then show ?thesis using assms
      by (simp add: inner_masked_merge[OF _ _ refl] sent_frame_try_write)
  next
    case 2
    then show ?thesis using assms
      by (simp add: inner_masked_split[OF _ _ _ refl] sent_frame_try_write2 frame_layout_def)
  next
    case 3
    then show ?thesis using assms
      by (simp add: inner_plain_merge[OF _ _ refl, where m="used_mask s fresh"] sent_frame_try_write)
  next
    case 4
    then show ?thesis using assms
      by (simp add: inner_plain_split[OF _ _ refl, where m="used_mask s fresh"]
          sent_frame_try_write2 frame_layout_def)
  qed
qed

subsection \<open>Bits of the header bytes\<close>

lemma bit_0x80: "bit (0x80 :: byte) n = (n = 7)"
proof -
  have "(0x80 :: byte) = 2 ^ 7" by simp
  then have "bit (0x80 :: byte) n = bit (2 ^ 7 :: byte) n" by (simp only:)
  also have "\<dots> = (n = 7)" by (simp only: bit_exp_iff) auto
  finally show ?thesis .
qed

lemma bit_0x7f: "bit (0x7f :: byte) n = (n < 7)"
proof -
  have "(0x7f :: byte) = mask 7" by (simp add: mask_eq_exp_minus_1)
  then have "bit (0x7f :: byte) n = bit (mask 7 :: byte) n" by (simp only:)
  also have "\<dots> = (n < 7)" by (simp only: bit_mask_iff) auto
  finally show ?thesis .
qed

lemma bit_0x40: "bit (0x40 :: byte) n = (n = 6)"
proof -
  have "(0x40 :: byte) = 2 ^ 6" by simp
  then have "bit (0x40 :: byte) n = bit (2 ^ 6 :: byte) n" by (simp only:)
  also have "\<dots> = (n = 6)" by (simp only: bit_exp_iff) auto
  finally show ?thesis .
qed

lemma bit_0x0f: "bit (0x0f :: byte) n = (n < 4)"
proof -
  have "(0x0f :: byte) = mask 4" by (simp add: mask_eq_exp_minus_1)
  then have "bit (0x0f :: byte) n = bit (mask 4 :: byte) n" by (simp only:)
  also have "\<dots> = (n < 4)" by (simp only: bit_mask_iff) auto
  finally show ?thesis .
qed

lemma low7_or: "((b :: byte) OR 0x80) AND 0x7f = b AND 0x7f"
  by (rule bit_word_eqI) (auto simp: bit_and_iff bit_or_iff bit_0x80 bit_0x7f simp del: bit_numeral_word_iff)

lemma low7_small: "k < 128 \<Longrightarrow> unat ((of_nat k :: byte) AND 0x7f) = k"
proof -
  assume k: "k < 128"
  have "(of_nat k :: byte) AND 0x7f = of_nat k mod 128"
    using word_mod_2p_is_mask[of 7 "of_nat k :: byte"] by (simp add: mask_eq_exp_minus_1)
  then show ?thesis using k by (simp add: unat_mod unat_of_nat)
qed

lemma high_or: "((b :: byte) OR 0x80) AND 0x80 \<noteq> 0"
proof
  assume "(b OR 0x80) AND 0x80 = 0"
  then have "bit ((b OR 0x80) AND 0x80) 7 = bit (0 :: byte) 7" by simp
  then show False by (simp add: bit_and_iff bit_or_iff bit_0x80)
qed

lemma high_small: "k < 128 \<Longrightarrow> (of_nat k :: byte) AND 0x80 = 0"
proof (rule bit_word_eqI)
  fix n assume k: "k < 128" and n: "n < LENGTH(8)"
  have "\<not> bit k 7" using k by (simp add: bit_iff_odd)
  then show "bit ((of_nat k :: byte) AND 0x80) n = bit (0 :: byte) n"
    by (auto simp: bit_and_iff bit_0x80 bit_of_nat_iff simp del: bit_numeral_word_iff)
qed

lemma opcode_bits: "(((b :: byte) OR 0x80) OR 0x40) AND 0x0f = b AND 0x0f"
  "((b :: byte) OR 0x80) AND 0x0f = b AND 0x0f"
  "((b :: byte) OR 0x40) AND 0x0f = b AND 0x0f"
  by (rule bit_word_eqI; auto simp: bit_and_iff bit_or_iff bit_0x80 bit_0x40 bit_0x0f simp del: bit_numeral_word_iff)+

subsection \<open>Reading a frame back\<close>

lemma be_nat_snoc: "be_nat (bs @ [b]) = be_nat bs * 256 + unat b"
  by (simp add: be_nat_def)

lemma be_nat_be_bytes: "be_nat (be_bytes k n) = n mod 256 ^ k"
proof (induction k arbitrary: n)
  case 0
  show ?case by (simp add: be_nat_def)
next
  case (Suc k)
  have "n mod (256 * 256 ^ k) = (n div 256 mod 256 ^ k) * 256 + n mod 256"
    by (simp add: mod_mult2_eq)
  with Suc show ?case by (simp add: be_nat_snoc unat_of_nat)
qed

lemma be_nat_zeros: "be_nat (0 # bs) = be_nat bs"
  by (simp add: be_nat_def)

lemma be_bytes_append: "be_bytes (j + k) n = be_bytes j (n div 256 ^ k) @ be_bytes k n"
  by (induction k arbitrary: n) (simp_all add: div_mult2_eq)

lemma be_bytes_zero: "be_bytes k 0 = replicate k 0"
  by (induction k) (simp_all add: replicate_append_same)

lemma be_bytes_8: "n < 2 ^ 32 \<Longrightarrow> be_bytes 8 n = [0, 0, 0, 0] @ be_bytes 4 n"
proof -
  assume n: "n < 2 ^ 32"
  have "be_bytes (4 + 4) n = be_bytes 4 (n div 256 ^ 4) @ be_bytes 4 n"
    by (rule be_bytes_append)
  moreover have "n div 256 ^ 4 = 0" using n by simp
  moreover have "be_bytes 4 0 = [0, 0, 0, 0]" by (simp add: be_bytes_4)
  ultimately show ?thesis by simp
qed

lemma secondByte_of_less: "secondByte_of n < 128"
  by (simp add: secondByte_of_def)

lemma frame_layout_nth0:
  "frame_layout cl m data ! 0 =
     (if c_finalFragment cl then c_opcode cl OR 0x80 else c_opcode cl)
       OR (if c_compress cl then 0x40 else 0)"
  by (simp add: frame_layout_def frame_header_def)

lemma frame_layout_nth1:
  "frame_layout cl m data ! Suc 0 =
     of_nat (secondByte_of (length data)) OR (if c_maskData cl then 0x80 else 0)"
  by (simp add: frame_layout_def frame_header_def)

lemma wire_opcode_layout: "wire_opcode (frame_layout cl m data) = c_opcode cl AND 0x0f"
  by (simp add: wire_opcode_def frame_layout_nth0 opcode_bits)

lemma wire_len7_layout: "wire_len7 (frame_layout cl m data) = secondByte_of (length data)"
  by (simp add: wire_len7_def frame_layout_nth1 low7_or low7_small secondByte_of_less)

lemma wire_masked_layout: "wire_masked (frame_layout cl m data) = c_maskData cl"
  by (simp add: wire_masked_def frame_layout_nth1 high_or high_small secondByte_of_less)

lemma wire_ext_layout:
  "wire_ext (frame_layout cl m data) = length (length_field (length data))"
  by (simp add: wire_ext_def wire_len7_layout secondByte_of_def length_field_def
      be_bytes_2 be_bytes_4)

lemma ext_field_layout:
  "take (length (length_field (length data))) (drop 2 (frame_layout cl m data))
     = length_field (length data)"
  by (simp add: frame_layout_def frame_header_def)

lemma wire_payload_offset_layout:
  "wire_payload_offset (frame_layout cl m data) = length (frame_header cl m (length data))"
  by (simp add: wire_payload_offset_def wire_ext_layout wire_masked_layout frame_header_def)

lemma wire_payload_layout:
  "wire_payload (frame_layout cl m data) = (if c_maskData cl then xor_mask m data else data)"
  unfolding wire_payload_def wire_payload_offset_layout
  by (simp add: frame_layout_def)

lemma wire_mask_layout:
  "c_maskData cl \<Longrightarrow>
   wire_mask (frame_layout cl m data) = [mask_at m 0, mask_at m 1, mask_at m 2, mask_at m 3]"
  unfolding wire_mask_def wire_payload_offset_layout
  by (simp add: frame_layout_def frame_header_def)

lemma key_nth:
  "[mask_at m 0, mask_at m (Suc 0), mask_at m 2, mask_at m 3] ! (i mod 4) = mask_at m i"
proof -
  obtain m0 m1 m2 m3 where m: "m = (m0, m1, m2, m3)" by (cases m) auto
  have "i mod 4 = 0 \<or> i mod 4 = 1 \<or> i mod 4 = 2 \<or> i mod 4 = 3" by presburger
  then show ?thesis by (auto simp: m)
qed

lemma unmask_xor_mask:
  "unmask [mask_at m 0, mask_at m 1, mask_at m 2, mask_at m 3] (xor_mask m data) = data"
  by (rule nth_equalityI) (simp_all add: unmask_def xor_mask_def key_nth xor.assoc)

lemma wire_length_layout:
  "length data < 2 ^ 32 \<Longrightarrow> wire_length (frame_layout cl m data) = length data"
proof -
  assume n: "length data < 2 ^ 32"
  let ?n = "length data"
  consider "?n \<le> 125" | "125 < ?n" "?n < 65536" | "65536 \<le> ?n" by linarith
  then show ?thesis
  proof cases
    case 1
    then show ?thesis
      by (simp add: wire_length_def wire_ext_layout wire_len7_layout length_field_def
          secondByte_of_def)
  next
    case 2
    then have "wire_length (frame_layout cl m data) = be_nat (be_bytes 2 ?n)"
      using ext_field_layout[of data cl m]
      by (simp add: wire_length_def wire_ext_layout length_field_def be_bytes_2)
    then show ?thesis using 2 by (simp add: be_nat_be_bytes)
  next
    case 3
    then have "wire_length (frame_layout cl m data) = be_nat ([0, 0, 0, 0] @ be_bytes 4 ?n)"
      using ext_field_layout[of data cl m]
      by (simp add: wire_length_def wire_ext_layout length_field_def be_bytes_4)
    then show ?thesis using n by (simp add: be_nat_zeros be_nat_be_bytes)
  qed
qed

subsection \<open>The frame of a call\<close>

lemma Sender_simps [simp]:
  "socket_broken (Sender bufs broken) = broken"
  "store (Sender bufs broken) = bufs"
  "firstFragment (Sender bufs broken) = True"
  "randomMask (Sender bufs broken) = None"
  "written (Sender bufs broken) = []"
  "pending (Sender bufs broken) = []"
  "cb_calls (Sender bufs broken) = []"
  "emitted (Sender bufs broken) = []"
  "uncaught (Sender bufs broken) = []"
  by (simp_all add: Sender_def)

lemma send_eq:
  "send fresh data options cb s =
     frameAndSend fresh (if firstFragment s then data_opcode options else 0) data
       (fin_of options) (mask_of options) (compress_of options) cb
       (s\<lparr>firstFragment := fin_of options\<rparr>)"
proof -
  have "s\<lparr>firstFragment := firstFragment s\<rparr> = s" by simp
  then have e: "\<not> firstFragment s \<Longrightarrow> s\<lparr>firstFragment := False\<rparr> = s" by simp
  show ?thesis
    by (cases "firstFragment s"; cases "fin_of options")
       (simp_all add: e send_def fin_of_def mask_of_def compress_of_def data_opcode_def Let_def)
qed

lemma sent_frame_cong: "written s1 = written s0 \<Longrightarrow> sent_frame s0 x = sent_frame s1 x"
  by (simp add: sent_frame_def sent_def)

lemma buf_read_alloc [simp]: "buf_read (h @ [b]) (length h) = b"
  by (simp add: buf_read_def)

lemma frame_layout_closure:
  "c_opcode cl = c_opcode cl' \<Longrightarrow> c_finalFragment cl = c_finalFragment cl' \<Longrightarrow>
   c_maskData cl = c_maskData cl' \<Longrightarrow> c_compress cl = c_compress cl' \<Longrightarrow>
   frame_layout cl m data = frame_layout cl' m data"
  by (simp add: frame_layout_def frame_header_def)

lemma frameAndSend_falsy:
  "is_falsy data \<Longrightarrow>
   frameAndSend fresh opcode data fin maskData compress cb s =
     try_write (frame_layout (closure_of opcode data fin maskData False cb) (0, 0, 0, 0) []) cb s"
  by (simp add: frameAndSend_def frame_layout_def frame_header_def closure_of_def
      secondByte_of_def length_field_def xor_mask_def)

lemma frameAndSend_inner:
  "\<not> is_falsy data \<Longrightarrow>
   frameAndSend fresh opcode data fin maskData False cb s =
     (case data of
        JBuffer a \<Rightarrow> frame_and_send_inner (closure_of opcode data fin maskData False cb) fresh a s
      | _ \<Rightarrow> frame_and_send_inner (closure_of opcode data fin maskData False cb) fresh
               (length (store s)) (s\<lparr>store := store s @ [payload_of (store s) data]\<rparr>))"
  by (cases data) (simp_all add: frameAndSend_def closure_of_def alloc_def payload_of_def)

lemma falsy_payload: "is_falsy data \<Longrightarrow> payload_of h data = []"
  by (cases data) (simp_all add: payload_of_def utf8_def)

lemma frameAndSend_sent_frame:
  assumes "\<not> socket_broken s"
  shows "sent_frame s (frameAndSend fresh opcode data fin maskData False cb s) =
           frame_layout (closure_of opcode data fin maskData False cb)
             (if is_falsy data then (0, 0, 0, 0) else used_mask s fresh)
             (payload_of (store s) data)"
proof (cases "is_falsy data")
  case True
  then show ?thesis using assms
    by (simp add: frameAndSend_falsy sent_frame_try_write falsy_payload)
next
  case False
  show ?thesis
  proof (cases "\<exists>a. data = JBuffer a")
    case True
    then obtain a where "data = JBuffer a" by blast
    then show ?thesis using assms False
      by (simp add: frameAndSend_inner inner_sent_frame payload_of_def)
  next
    case nb: False
    let ?s' = "s\<lparr>store := store s @ [payload_of (store s) data]\<rparr>"
    have "frameAndSend fresh opcode data fin maskData False cb s =
            frame_and_send_inner (closure_of opcode data fin maskData False cb) fresh
              (length (store s)) ?s'"
      using False nb by (cases data) (simp_all add: frameAndSend_inner)
    moreover have "sent_frame s (frame_and_send_inner (closure_of opcode data fin maskData False cb) fresh
              (length (store s)) ?s') = sent_frame ?s' (frame_and_send_inner (closure_of opcode data fin maskData False cb) fresh
              (length (store s)) ?s')"
      by (rule sent_frame_cong) simp
    ultimately show ?thesis using assms False
      by (simp add: inner_sent_frame used_mask_def)
  qed
qed

lemma on_end_sent_frame:
  assumes "\<not> socket_broken s"
  shows "sent_frame s (on_end fresh j s) =
           frame_layout (j_closure j) (used_mask s fresh) (buffer_slice (j_cdata j) 0 (- 6))"
proof -
  let ?s' = "s\<lparr>store := store s @ [buffer_slice (j_cdata j) 0 (- 6)]\<rparr>"
  have "on_end fresh j s = frame_and_send_inner (j_closure j) fresh (length (store s)) ?s'"
    by (simp add: on_end_def alloc_def)
  moreover have "sent_frame s (frame_and_send_inner (j_closure j) fresh (length (store s)) ?s')
    = sent_frame ?s' (frame_and_send_inner (j_closure j) fresh (length (store s)) ?s')"
    by (rule sent_frame_cong) simp
  ultimately show ?thesis using assms
    by (simp add: inner_sent_frame used_mask_def)
qed

lemma length_rule_layout: "length_rule (length data) (frame_layout cl m data)"
proof -
  have "take 2 (drop 2 (frame_layout cl m data)) = be_bytes 2 (length data)"
    if "125 < length data" "length data < 65536"
  proof -
    have "length_field (length data) = be_bytes 2 (length data)"
      using that by (simp add: length_field_def)
    moreover have "length (be_bytes 2 (length data)) = 2"
      by (simp add: be_bytes_2)
    ultimately show ?thesis
      using ext_field_layout[of data cl m] by (simp only:)
  qed
  moreover have "take 8 (drop 2 (frame_layout cl m data)) = [0, 0, 0, 0] @ be_bytes 4 (length data)"
    if "65536 \<le> length data"
  proof -
    have "length_field (length data) = [0, 0, 0, 0] @ be_bytes 4 (length data)"
      using that by (simp add: length_field_def)
    moreover have "length ([0 :: byte, 0, 0, 0] @ be_bytes 4 (length data)) = 8"
      by (simp add: be_bytes_4)
    ultimately show ?thesis
      using ext_field_layout[of data cl m] by (simp only:)
  qed
  ultimately show ?thesis
    by (auto simp add: length_rule_def wire_len7_layout wire_length_layout secondByte_of_def be_bytes_8)
qed

subsection \<open>What a call leaves unchanged\<close>

lemma try_write_fields [simp]:
  "firstFragment (try_write b cb s) = firstFragment s"
  "randomMask (try_write b cb s) = randomMask s"
  "store (try_write b cb s) = store s"
  "socket_broken (try_write b cb s) = socket_broken s"
  "uncaught (try_write b cb s) = uncaught s"
  "pending (try_write b cb s) = pending s"
  by (simp_all add: try_write_def socket_write_def report_def split: option.splits)

lemma try_write2_fields [simp]:
  "firstFragment (try_write2 b1 b2 cb s) = firstFragment s"
  "randomMask (try_write2 b1 b2 cb s) = randomMask s"
  "store (try_write2 b1 b2 cb s) = store s"
  "socket_broken (try_write2 b1 b2 cb s) = socket_broken s"
  "uncaught (try_write2 b1 b2 cb s) = uncaught s"
  "pending (try_write2 b1 b2 cb s) = pending s"
  by (simp_all add: try_write2_def socket_write_def report_def split: option.splits)

lemma try_write_working:
  "\<not> socket_broken s \<Longrightarrow> try_write b cb s = s\<lparr>written := written s @ [(b, cb)]\<rparr>"
  by (simp add: try_write_def socket_write_def)


lemma inner_cases:
  obtains m b where "frame_and_send_inner cl fresh a s = try_write b (c_cb cl) (s\<lparr>randomMask := m\<rparr>)"
  | m b1 b2 d where "frame_and_send_inner cl fresh a s =
        try_write2 b1 b2 (c_cb cl) (s\<lparr>randomMask := m, store := (store s)[a := d]\<rparr>)"
      "c_maskData cl" "c_canModifyData cl" "\<not> length (buf_read (store s) a) < 32768"
  | b where "frame_and_send_inner cl fresh a s = try_write b (c_cb cl) s"
  | b1 b2 where "frame_and_send_inner cl fresh a s = try_write2 b1 b2 (c_cb cl) s"
proof -
  let ?d = "buf_read (store s) a"
  consider "c_maskData cl" "length ?d < 32768 \<or> \<not> c_canModifyData cl"
    | "c_maskData cl" "\<not> length ?d < 32768" "c_canModifyData cl"
    | "\<not> c_maskData cl" "length ?d < 32768"
    | "\<not> c_maskData cl" "\<not> length ?d < 32768"
    by blast
  then show ?thesis
  proof cases
    case 1
    then show ?thesis using inner_masked_merge[OF _ _ refl, of cl s a fresh] that(1) by blast
  next
    case 2
    then show ?thesis using inner_masked_split[OF _ _ _ refl, of cl s a fresh] that(2) by blast
  next
    case 3
    then show ?thesis using inner_plain_merge[OF _ _ refl, of cl s a fresh] that(3) by blast
  next
    case 4
    then show ?thesis using inner_plain_split[OF _ _ refl, of cl s a fresh] that(4) by blast
  qed
qed

lemma inner_fields [simp]:
  "firstFragment (frame_and_send_inner cl fresh a s) = firstFragment s"
  "socket_broken (frame_and_send_inner cl fresh a s) = socket_broken s"
  "uncaught (frame_and_send_inner cl fresh a s) = uncaught s"
  "pending (frame_and_send_inner cl fresh a s) = pending s"
  by (rule inner_cases[of cl fresh a s]; simp)+

lemma inner_store:
  "store (frame_and_send_inner cl fresh a s) =
     (if c_maskData cl \<and> c_canModifyData cl \<and> \<not> length (buf_read (store s) a) < 32768
      then (store s)[a := xor_mask (used_mask s fresh) (buf_read (store s) a)]
      else store s)"
proof -
  let ?d = "buf_read (store s) a"
  consider "c_maskData cl" "length ?d < 32768 \<or> \<not> c_canModifyData cl"
    | "c_maskData cl" "\<not> length ?d < 32768" "c_canModifyData cl"
    | "\<not> c_maskData cl" "length ?d < 32768"
    | "\<not> c_maskData cl" "\<not> length ?d < 32768"
    by blast
  then show ?thesis
  proof cases
    case 1
    then show ?thesis using inner_masked_merge[OF _ _ refl, of cl s a fresh] by auto
  next
    case 2
    then show ?thesis using inner_masked_split[OF _ _ _ refl, of cl s a fresh] by simp
  next
    case 3
    then show ?thesis
      using inner_plain_merge[OF _ _ refl, of cl s a fresh "used_mask s fresh"] by simp
  next
    case 4
    then show ?thesis
      using inner_plain_split[OF _ _ refl, of cl s a fresh "used_mask s fresh"] by simp
  qed
qed


lemma inner_firstFragment_commute:
  "frame_and_send_inner cl fresh a (s\<lparr>firstFragment := b\<rparr>)
     = (frame_and_send_inner cl fresh a s)\<lparr>firstFragment := b\<rparr>"
  by (simp add: frame_and_send_inner_def Let_def try_write_def try_write2_def socket_write_def
      report_def split: option.splits)

lemma inner_firstFragment_commute':
  "frame_and_send_inner cl fresh a (s\<lparr>firstFragment := b, store := h\<rparr>)
     = (frame_and_send_inner cl fresh a (s\<lparr>store := h\<rparr>))\<lparr>firstFragment := b\<rparr>"
  by (simp add: frame_and_send_inner_def Let_def try_write_def try_write2_def socket_write_def
      report_def split: option.splits)

lemma frameAndSend_firstFragment_commute:
  "frameAndSend fresh opcode data fin maskData compress cb (s\<lparr>firstFragment := b\<rparr>)
     = (frameAndSend fresh opcode data fin maskData compress cb s)\<lparr>firstFragment := b\<rparr>"
  by (cases data)
     (simp_all add: frameAndSend_def Let_def alloc_def inner_firstFragment_commute
      inner_firstFragment_commute' try_write_def socket_write_def
      report_def split: option.splits)

lemma frameAndSend_firstFragment [simp]:
  "firstFragment (frameAndSend fresh opcode data fin maskData compress cb s) = firstFragment s"
  by (cases data) (simp_all add: frameAndSend_def Let_def alloc_def)

lemma frameAndSend_compress:
  "\<not> is_falsy data \<Longrightarrow>
   frameAndSend fresh opcode data fin maskData True cb s =
     (case data of
        JBuffer a \<Rightarrow> s
      | _ \<Rightarrow> s\<lparr>store := store s @ [payload_of (store s) data]\<rparr>)
     \<lparr>pending := pending s
        @ [\<lparr>j_closure = closure_of opcode data fin maskData True cb, j_cdata = []\<rparr>]\<rparr>"
  by (cases data) (simp_all add: frameAndSend_def closure_of_def alloc_def payload_of_def)

lemma frameAndSend_compress_fields:
  assumes "\<not> is_falsy data"
  shows "pending (frameAndSend fresh opcode data fin maskData True cb s) =
           pending s @ [\<lparr>j_closure = closure_of opcode data fin maskData True cb, j_cdata = []\<rparr>]"
    and "written (frameAndSend fresh opcode data fin maskData True cb s) = written s"
    and "cb_calls (frameAndSend fresh opcode data fin maskData True cb s) = cb_calls s"
    and "emitted (frameAndSend fresh opcode data fin maskData True cb s) = emitted s"
    and "uncaught (frameAndSend fresh opcode data fin maskData True cb s) = uncaught s"
  using assms by (cases data; simp add: frameAndSend_compress)+

lemma frameAndSend_falsy_sent_frame:
  assumes "\<not> socket_broken s" "is_falsy data"
  shows "sent_frame s (frameAndSend fresh opcode data fin maskData compress cb s) =
           frame_layout (closure_of opcode data fin maskData False cb) (0, 0, 0, 0) []"
  using assms by (simp add: frameAndSend_falsy sent_frame_try_write)

subsection \<open>The payload of close\<close>

lemma ucast_drop_int:
  "k \<le> 24 \<Longrightarrow> (ucast (drop_bit k (word_of_int c :: 32 word)) :: byte) = word_of_int (c div 2 ^ k)"
  by (rule bit_word_eqI) (auto simp: bit_simps drop_bit_eq_div[symmetric] bit_drop_bit_eq)

lemma ucast_int: "(ucast (word_of_int c :: 32 word) :: byte) = word_of_int c"
  using ucast_drop_int[of 0 c] by simp

lemma writeUInt16BE_int:
  "writeUInt16BE buf c off = buf[off := word_of_int (c div 256), off + 1 := word_of_int c]"
  unfolding writeUInt16BE_def toInt32_def const_ff const_ff00
  by (simp add: byte_of_shift byte_of_low ucast_drop_int ucast_int)

lemma code_field_be_bytes: "0 \<le> c \<Longrightarrow> code_field c = be_bytes 2 (nat c)"
proof -
  assume c: "0 \<le> c"
  have "int (nat c div 256) = c div 256" using c by (simp add: zdiv_int)
  then have "(word_of_int (c div 256) :: byte) = of_nat (nat c div 256)"
    by (metis of_int_of_nat_eq)
  moreover have "(word_of_int c :: byte) = of_nat (nat c)"
    using c by (metis of_int_of_nat_eq int_nat_eq)
  ultimately show ?thesis by (simp add: code_field_def be_bytes_2)
qed

lemma be_nat_code_field: "0 \<le> c \<Longrightarrow> c < 65536 \<Longrightarrow> be_nat (code_field c) = nat c"
proof -
  assume c: "0 \<le> c" "c < 65536"
  have "be_nat (be_bytes 2 (nat c)) = nat c mod 256 ^ 2" by (rule be_nat_be_bytes)
  moreover have "nat c < 65536" using c by simp
  ultimately show ?thesis using c by (simp add: code_field_be_bytes)
qed

lemma close_buffer:
  "(let dataBuffer = new_Buffer (2 + (if data \<noteq> [] then length (utf8 data) else 0));
        dataBuffer = writeUInt16BE dataBuffer c 0
    in if length dataBuffer > 2 then buffer_write dataBuffer data 2 else dataBuffer)
   = code_field c @ utf8 data"
proof -
  have w: "writeUInt16BE (new_Buffer (2 + k)) c 0 = code_field c @ replicate k 0" for k
    by (simp add: writeUInt16BE_int new_Buffer_def replicate_plus code_field_def)
  have e: "(data = []) = (utf8 data = [])" by (simp add: utf8_def)
  have l: "length (code_field c) = 2" by (simp add: code_field_def)
  show ?thesis
  proof (cases "data = []")
    case True
    then show ?thesis using w[of 0] l by (simp add: utf8_def Let_def)
  next
    case False
    then have "utf8 data \<noteq> []" using e by simp
    then show ?thesis
      using False w[of "length (utf8 data)"] l
        buffer_copy_onto[of "code_field c" 2 "utf8 data"]
      by (simp add: buffer_write_def Let_def)
  qed
qed

lemma close_accepted:
  "code = CodeUndefined \<or> (\<exists>c. code = CodeNumber c \<and> isValidErrorCode c) \<Longrightarrow>
   close isValidErrorCode fresh code data m s =
     Inr (frameAndSend fresh 0x8 (JBuffer (length (store s))) True m False None
            (s\<lparr>store := store s @ [code_field (code_or_default code) @ utf8 data]\<rparr>))"
  using close_buffer[of data "code_or_default code"]
  by (auto simp add: close_def alloc_def Let_def code_or_default_def)

lemma close_rejected:
  "\<not> (code = CodeUndefined \<or> (\<exists>c. code = CodeNumber c \<and> isValidErrorCode c)) \<Longrightarrow>
   close isValidErrorCode fresh code data m s = Inl InvalidCloseCode"
  by (cases code) (simp_all add: close_def)

lemma close_accepted_sent_frame:
  assumes "\<not> socket_broken s"
    "code = CodeUndefined \<or> (\<exists>c. code = CodeNumber c \<and> isValidErrorCode c)"
  shows "map_sum id (sent_frame s) (close isValidErrorCode fresh code data m s)
         = Inr (frame_layout (closure_of 0x8 (JBuffer (length (store s))) True m False None)
                  (used_mask s fresh) (code_field (code_or_default code) @ utf8 data))"
proof -
  let ?b = "code_field (code_or_default code) @ utf8 data"
  let ?s' = "s\<lparr>store := store s @ [?b]\<rparr>"
  have "sent_frame s x = sent_frame ?s' x" for x
    by (rule sent_frame_cong) simp
  moreover have "sent_frame ?s' (frameAndSend fresh 0x8 (JBuffer (length (store s))) True m False None ?s')
     = frame_layout (closure_of 0x8 (JBuffer (length (store s))) True m False None)
         (if is_falsy (JBuffer (length (store s))) then (0, 0, 0, 0) else used_mask ?s' fresh)
         (payload_of (store ?s') (JBuffer (length (store s))))"
    by (rule frameAndSend_sent_frame) (simp add: assms)
  ultimately show ?thesis
    using assms(2) by (simp add: close_accepted payload_of_def used_mask_def)
qed

lemma close_frame_fields:
  assumes "\<not> socket_broken s"
    "code = CodeUndefined \<or> (\<exists>c. code = CodeNumber c \<and> isValidErrorCode c)"
  shows "case close isValidErrorCode fresh code data m s of
           Inl e \<Rightarrow> False
         | Inr s' \<Rightarrow>
             wire_opcode (sent_frame s s') = 0x8
             \<and> (if m then unmask (wire_mask (sent_frame s s')) (wire_payload (sent_frame s s'))
                 else wire_payload (sent_frame s s'))
               = code_field (code_or_default code) @ utf8 data
             \<and> length (wire_payload (sent_frame s s')) = 2 + length (utf8 data)"
proof -
  let ?cl = "closure_of 0x8 (JBuffer (length (store s))) True m False None"
  let ?p = "code_field (code_or_default code) @ utf8 data"
  obtain s' where s': "close isValidErrorCode fresh code data m s = Inr s'"
    using assms(2) by (simp add: close_accepted)
  have f: "sent_frame s s' = frame_layout ?cl (used_mask s fresh) ?p"
    using close_accepted_sent_frame[OF assms, of fresh data m] by (simp add: s')
  have "wire_opcode (sent_frame s s') = 0x8"
    unfolding f wire_opcode_layout by (simp add: closure_of_def)
  moreover have "(if m then unmask (wire_mask (sent_frame s s')) (wire_payload (sent_frame s s'))
                 else wire_payload (sent_frame s s')) = ?p"
  proof (cases m)
    case True
    then have cm: "c_maskData ?cl" by (simp add: closure_of_def)
    show ?thesis
      unfolding f wire_mask_layout[OF cm] wire_payload_layout
      using True cm by (simp only: if_True unmask_xor_mask)
  next
    case False
    then show ?thesis unfolding f wire_payload_layout by (simp add: closure_of_def)
  qed
  moreover have "length (wire_payload (sent_frame s s')) = 2 + length (utf8 data)"
    unfolding f wire_payload_layout by (simp add: xor_mask_def code_field_def)
  ultimately show ?thesis by (simp add: s')
qed

lemma code_field_1000: "code_field 1000 = [0x03, 0xE8]"
  by (simp add: code_field_def)

subsection \<open>The deflate stream\<close>

lemma stream_error_fields:
  assumes "i < length (pending s)"
  shows "uncaught (stream_error i err s) = uncaught s @ [err]"
    and "cb_calls (stream_error i err s) = cb_calls s"
    and "emitted (stream_error i err s) = emitted s"
    and "written (stream_error i err s) = written s"
    and "pending (stream_error i err s) = remove_nth i (pending s)"
  using assms by (simp_all add: stream_error_def on_error_def)



lemma buffer_slice_trim: "buffer_slice xs 0 (- 6) = take (length xs - 6) xs"
proof -
  have "nat (int (length xs) - 6) = length xs - 6" by arith
  then show ?thesis
    by (simp add: buffer_slice_def clamp_index_def Let_def)
qed

lemma on_end_inner:
  "on_end fresh j s =
     frame_and_send_inner (j_closure j) fresh (length (store s))
       (s\<lparr>store := store s @ [take (length (j_cdata j) - 6) (j_cdata j)]\<rparr>)"
  by (simp add: on_end_def alloc_def buffer_slice_trim)

subsection \<open>Empty payloads, the order of writes, the store\<close>

lemma frameAndSend_falsy_bytes:
  "is_falsy data \<Longrightarrow>
   frameAndSend fresh opcode data fin maskData compress cb s =
     try_write ([opcode OR (if fin then 0x80 else 0), (if maskData then 0x80 else 0)]
                @ (if maskData then [0, 0, 0, 0] else [])) cb s"
  by (simp add: frameAndSend_def)

lemma frame_layout_empty:
  "frame_layout cl m [] =
     [(if c_finalFragment cl then c_opcode cl OR 0x80 else c_opcode cl)
        OR (if c_compress cl then 0x40 else 0),
      (if c_maskData cl then 0x80 else 0)]
     @ (if c_maskData cl then [mask_at m 0, mask_at m 1, mask_at m 2, mask_at m 3] else [])"
  by (simp add: frame_layout_def frame_header_def secondByte_of_def length_field_def xor_mask_def)





lemma frameAndSend_Buffer_store:
  "store (frameAndSend fresh opcode (JBuffer a) fin maskData compress cb s) = store s"
proof (cases compress)
  case True
  then show ?thesis by (simp add: frameAndSend_compress)
next
  case False
  then show ?thesis
    by (simp add: frameAndSend_inner inner_store closure_of_def)
qed

lemma alloc_inner_store:
  "take (length (store s))
     (store (frame_and_send_inner cl fresh (length (store s)) (s\<lparr>store := store s @ [b]\<rparr>)))
   = store s"
  by (simp add: inner_store)

lemma frameAndSend_store_prefix:
  "take (length (store s)) (store (frameAndSend fresh opcode data fin maskData compress cb s))
     = store s"
proof (cases "is_falsy data")
  case True
  then show ?thesis by (simp add: frameAndSend_falsy)
next
  case nf: False
  show ?thesis
  proof (cases "\<exists>a. data = JBuffer a")
    case True
    then show ?thesis by (auto simp add: frameAndSend_Buffer_store)
  next
    case False
    show ?thesis
    proof (cases compress)
      case True
      then show ?thesis using nf False
        by (cases data) (simp_all add: frameAndSend_compress)
    next
      case nc: False
      then show ?thesis using nf False
        by (cases data) (simp_all add: frameAndSend_inner alloc_inner_store)
    qed
  qed
qed

subsection \<open>A compressed send whose stream fails\<close>

lemma stream_data_fields [simp]:
  "written (stream_data i chunk s) = written s"
  "cb_calls (stream_data i chunk s) = cb_calls s"
  "emitted (stream_data i chunk s) = emitted s"
  "uncaught (stream_data i chunk s) = uncaught s"
  "store (stream_data i chunk s) = store s"
  "length (pending (stream_data i chunk s)) = length (pending s)"
  by (simp_all add: stream_data_def)

lemma stream_data_foldl_fields [simp]:
  "written (foldl (\<lambda>s' c. stream_data i c s') s chunks) = written s"
  "cb_calls (foldl (\<lambda>s' c. stream_data i c s') s chunks) = cb_calls s"
  "emitted (foldl (\<lambda>s' c. stream_data i c s') s chunks) = emitted s"
  "uncaught (foldl (\<lambda>s' c. stream_data i c s') s chunks) = uncaught s"
  "store (foldl (\<lambda>s' c. stream_data i c s') s chunks) = store s"
  "length (pending (foldl (\<lambda>s' c. stream_data i c s') s chunks)) = length (pending s)"
  by (induction chunks arbitrary: s; simp)+

lemma stream_data_foldl_pending:
  "i < length (pending s) \<Longrightarrow>
   pending (foldl (\<lambda>s' c. stream_data i c s') s chunks)
     = (pending s)[i := foldl on_data (pending s ! i) chunks]"
proof (induction chunks arbitrary: s)
  case Nil
  then show ?case by simp
next
  case (Cons c chunks)
  then show ?case by (simp add: stream_data_def)
qed

lemma remove_nth_snoc: "remove_nth (length xs) (xs @ [y]) = xs"
  by (simp add: remove_nth_def)

lemma compressed_send_then_error:
  assumes nf: "\<not> is_falsy data"
  shows "cb_calls (stream_error (length (pending s)) err
            (foldl (\<lambda>s' c. stream_data (length (pending s)) c s')
               (frameAndSend fresh opcode data fin maskData True cb s) chunks)) = cb_calls s"
    and "emitted (stream_error (length (pending s)) err
            (foldl (\<lambda>s' c. stream_data (length (pending s)) c s')
               (frameAndSend fresh opcode data fin maskData True cb s) chunks)) = emitted s"
    and "written (stream_error (length (pending s)) err
            (foldl (\<lambda>s' c. stream_data (length (pending s)) c s')
               (frameAndSend fresh opcode data fin maskData True cb s) chunks)) = written s"
    and "uncaught (stream_error (length (pending s)) err
            (foldl (\<lambda>s' c. stream_data (length (pending s)) c s')
               (frameAndSend fresh opcode data fin maskData True cb s) chunks))
          = uncaught s @ [err]"
    and "pending (stream_error (length (pending s)) err
            (foldl (\<lambda>s' c. stream_data (length (pending s)) c s')
               (frameAndSend fresh opcode data fin maskData True cb s) chunks)) = pending s"
proof -
  let ?i = "length (pending s)"
  let ?s1 = "frameAndSend fresh opcode data fin maskData True cb s"
  let ?t = "foldl (\<lambda>s' c. stream_data ?i c s') ?s1 chunks"
  have p1: "pending ?s1 = pending s @ [\<lparr>j_closure = closure_of opcode data fin maskData True cb,
                                       j_cdata = []\<rparr>]"
    using nf by (rule frameAndSend_compress_fields)
  then have i1: "?i < length (pending ?s1)" by simp
  then have i: "?i < length (pending ?t)" by simp
  have f1: "cb_calls ?s1 = cb_calls s" "emitted ?s1 = emitted s" "written ?s1 = written s"
    "uncaught ?s1 = uncaught s"
    using nf by (simp_all add: frameAndSend_compress_fields)
  show "cb_calls (stream_error ?i err ?t) = cb_calls s"
    by (simp add: stream_error_fields[OF i] f1)
  show "emitted (stream_error ?i err ?t) = emitted s"
    by (simp add: stream_error_fields[OF i] f1)
  show "written (stream_error ?i err ?t) = written s"
    by (simp add: stream_error_fields[OF i] f1)
  show "uncaught (stream_error ?i err ?t) = uncaught s @ [err]"
    by (simp add: stream_error_fields[OF i] f1)
  have "pending ?t = (pending ?s1)[?i := foldl on_data (pending ?s1 ! ?i) chunks]"
    using i1 by (rule stream_data_foldl_pending)
  then show "pending (stream_error ?i err ?t) = pending s"
    by (simp add: stream_error_fields[OF i] p1 remove_nth_snoc)
qed

section \<open>The claims\<close>

text \<open>
  C1 (as amended). A send on a working socket, without compression, of a payload of \<open>n\<close>
  bytes writes a frame whose length field follows the width rule: \<open>n < 126\<close> in the low
  seven bits of the second byte; \<open>126 \<le> n \<le> 65535\<close> as the marker 126 and two
  big-endian bytes; \<open>n \<ge> 65536\<close> as the marker 127, four zero bytes and the low 32 bits
  of \<open>n\<close>, big-endian, which is the 8-byte big-endian \<open>n\<close> when \<open>n < 2 ^ 32\<close>. For
  every \<open>n < 2 ^ 32\<close> (so for 0, 1, 125, 126, 65535 and 65536) the length read back from
  the header is \<open>n\<close>. It holds for \<open>frameAndSend\<close> (so for ping, pong and close), for
  \<open>send\<close>, and for the frame that the end of a deflate stream writes; a falsy payload
  gives a frame of length 0 also when compression is asked for.
\<close>

theorem C1_length_encoding:
  assumes "\<not> socket_broken s"
  shows "length_rule (length (payload_of (store s) data))
           (sent_frame s (frameAndSend fresh opcode data fin maskData False cb s))
       \<and> (\<not> compress_of options \<longrightarrow>
            length_rule (length (payload_of (store s) data))
              (sent_frame s (send fresh data options cb s)))
       \<and> length_rule (length (buffer_slice (j_cdata j) 0 (- 6)))
           (sent_frame s (on_end fresh j s))
       \<and> (is_falsy data \<longrightarrow>
            length_rule 0 (sent_frame s (frameAndSend fresh opcode data fin maskData compress cb s))
            \<and> length_rule 0 (sent_frame s (send fresh data options cb s)))"
proof -
  let ?s' = "s\<lparr>firstFragment := fin_of options\<rparr>"
  have cong: "sent_frame s x = sent_frame ?s' x" for x
    by (rule sent_frame_cong) simp
  have w': "\<not> socket_broken ?s'" using assms by simp
  have 2: "\<not> compress_of options \<Longrightarrow>
            length_rule (length (payload_of (store s) data))
              (sent_frame s (send fresh data options cb s))"
    using assms frameAndSend_sent_frame[of ?s']
    unfolding send_eq cong by (simp add: length_rule_layout)
  have e: "length_rule 0 (frame_layout cl m [])" for cl m
    using length_rule_layout[of "[]" cl m] by simp
  have 4: "length_rule 0 (sent_frame s (frameAndSend fresh opcode data fin maskData compress cb s))"
    if "is_falsy data"
    using that assms by (simp add: frameAndSend_falsy_sent_frame e)
  have 5: "length_rule 0 (sent_frame s (send fresh data options cb s))"
    if f: "is_falsy data"
    unfolding send_eq cong
    by (simp add: frameAndSend_falsy_sent_frame[OF w' f] e)
  from 2 4 5 show ?thesis using assms
    by (simp add: frameAndSend_sent_frame on_end_sent_frame length_rule_layout)
qed

theorem C1_length_encoding_witness:
  "\<not> socket_broken (Sender [[1, 2, 3]] False)
   \<and> wire_len7 (sent_frame (Sender [[1, 2, 3]] False)
        (send (9, 9, 9, 9) (JBuffer 0) None None (Sender [[1, 2, 3]] False))) = 3
   \<and> wire_length (sent_frame (Sender [[1, 2, 3]] False)
        (send (9, 9, 9, 9) (JBuffer 0) None None (Sender [[1, 2, 3]] False))) = 3
   \<and> wire_len7 (sent_frame (Sender [replicate 126 7] False)
        (send (9, 9, 9, 9) (JBuffer 0) None None (Sender [replicate 126 7] False))) = 126
   \<and> take 2 (drop 2 (sent_frame (Sender [replicate 126 7] False)
        (send (9, 9, 9, 9) (JBuffer 0) None None (Sender [replicate 126 7] False)))) = [0, 126]"
  using C1_length_encoding [of "Sender [[1, 2, 3]] False" "JBuffer 0" _ _ _ _ _ None]
    C1_length_encoding [of "Sender [replicate 126 7] False" "JBuffer 0" _ _ _ _ _ None]
  by (simp add: length_rule_def payload_of_def buf_read_def compress_of_def be_bytes_2)

text \<open>
  The claim as stated fails from \<open>2 ^ 32\<close> bytes on: the code writes 0 into the high four
  length bytes (\<open>writeUInt32BE(0, 2)\<close>), so for a Buffer of 4294967296 bytes the eight
  length bytes are all zero, and not the big-endian 4294967296.
\<close>

theorem C1_counterexample:
  "take 8 (drop 2 (sent_frame (Sender [replicate 4294967296 0] False)
      (send (9, 9, 9, 9) (JBuffer 0) None None (Sender [replicate 4294967296 0] False))))
     = [0, 0, 0, 0, 0, 0, 0, 0]
   \<and> be_bytes 8 (length (replicate 4294967296 (0 :: byte))) = [0, 0, 0, 1, 0, 0, 0, 0]"
proof -
  let ?d = "replicate 4294967296 (0 :: byte)"
  let ?s = "Sender [?d] False"
  let ?s' = "?s\<lparr>firstFragment := fin_of None\<rparr>"
  have d: "payload_of (store ?s') (JBuffer 0) = ?d"
    by (simp add: payload_of_def buf_read_def)
  have "sent_frame ?s (send (9, 9, 9, 9) (JBuffer 0) None None ?s)
          = sent_frame ?s' (send (9, 9, 9, 9) (JBuffer 0) None None ?s)"
    by (rule sent_frame_cong) simp
  also have "\<dots> = frame_layout (closure_of 1 (JBuffer 0) True False False None)
                    (used_mask ?s' (9, 9, 9, 9)) ?d"
    using frameAndSend_sent_frame[of ?s' "(9, 9, 9, 9)" 1 "JBuffer 0" True False None]
    unfolding d
    by (simp add: send_eq fin_of_def mask_of_def compress_of_def data_opcode_def)
  finally have f: "sent_frame ?s (send (9, 9, 9, 9) (JBuffer 0) None None ?s)
      = frame_layout (closure_of 1 (JBuffer 0) True False False None)
                    (used_mask ?s' (9, 9, 9, 9)) ?d" .
  have lf: "length_field (length ?d) = [0, 0, 0, 0, 0, 0, 0, 0]"
    by (simp add: length_field_def be_bytes_4)
  have "take (length (length_field (length ?d))) (drop 2 (frame_layout (closure_of 1 (JBuffer 0) True False False None)
                    (used_mask ?s' (9, 9, 9, 9)) ?d)) = length_field (length ?d)"
    by (rule ext_field_layout)
  moreover have "length (length_field (length ?d)) = 8"
    unfolding lf by simp
  ultimately have 1: "take 8 (drop 2 (sent_frame ?s (send (9, 9, 9, 9) (JBuffer 0) None None ?s)))
     = [0, 0, 0, 0, 0, 0, 0, 0]"
    unfolding f lf by (simp only:)
  have "be_bytes (4 + 4) (length ?d) = be_bytes 4 (length ?d div 256 ^ 4) @ be_bytes 4 (length ?d)"
    by (rule be_bytes_append)
  then have 2: "be_bytes 8 (length ?d) = [0, 0, 0, 1, 0, 0, 0, 0]"
    by (simp add: be_bytes_4)
  from 1 2 show ?thesis by simp
qed

text \<open>
  C3. A masked send on a working socket: XOR-ing byte \<open>i\<close> of the frame's payload region
  with byte \<open>i mod 4\<close> of the four bytes that stand before it gives the payload back. It
  holds for \<open>frameAndSend\<close>, for \<open>send\<close> without compression, for the frame written
  at the end of a deflate stream (whose payload is the trimmed deflate output), and for a
  falsy payload also when compression is asked for.
\<close>

theorem C3_unmask_recovers_payload:
  assumes "\<not> socket_broken s"
  shows "(let f = sent_frame s (frameAndSend fresh opcode data fin True False cb s)
          in unmask (wire_mask f) (wire_payload f) = payload_of (store s) data)
       \<and> (mask_of options \<and> \<not> compress_of options \<longrightarrow>
            (let f = sent_frame s (send fresh data options cb s)
             in unmask (wire_mask f) (wire_payload f) = payload_of (store s) data))
       \<and> (c_maskData (j_closure j) \<longrightarrow>
            (let f = sent_frame s (on_end fresh j s)
             in unmask (wire_mask f) (wire_payload f) = buffer_slice (j_cdata j) 0 (- 6)))
       \<and> (is_falsy data \<longrightarrow>
            (let f = sent_frame s (frameAndSend fresh opcode data fin True compress cb s)
             in unmask (wire_mask f) (wire_payload f) = payload_of (store s) data))
       \<and> (is_falsy data \<and> mask_of options \<longrightarrow>
            (let f = sent_frame s (send fresh data options cb s)
             in unmask (wire_mask f) (wire_payload f) = payload_of (store s) data))"
proof -
  have layout: "unmask (wire_mask (frame_layout cl m d)) (wire_payload (frame_layout cl m d)) = d"
    if "c_maskData cl" for cl m d
    unfolding wire_mask_layout[OF that] wire_payload_layout
    using that by (simp only: if_True unmask_xor_mask)
  let ?s' = "s\<lparr>firstFragment := fin_of options\<rparr>"
  have cong: "sent_frame s x = sent_frame ?s' x" for x
    by (rule sent_frame_cong) simp
  have w': "\<not> socket_broken ?s'" using assms by simp
  have 2: "mask_of options \<and> \<not> compress_of options \<Longrightarrow>
            (let f = sent_frame s (send fresh data options cb s)
             in unmask (wire_mask f) (wire_payload f) = payload_of (store s) data)"
    using assms frameAndSend_sent_frame[of ?s']
    unfolding send_eq cong by (simp add: layout closure_of_def)
  have 4: "(let f = sent_frame s (frameAndSend fresh opcode data fin True compress cb s)
             in unmask (wire_mask f) (wire_payload f) = payload_of (store s) data)"
    if f: "is_falsy data"
    using assms f
    by (simp add: frameAndSend_falsy_sent_frame layout closure_of_def falsy_payload)
  have 5: "(let f = sent_frame s (send fresh data options cb s)
             in unmask (wire_mask f) (wire_payload f) = payload_of (store s) data)"
    if f: "is_falsy data" and m: "mask_of options"
    unfolding send_eq cong
    using m by (simp add: frameAndSend_falsy_sent_frame[OF w' f] layout closure_of_def
        falsy_payload[OF f])
  from 2 4 5 show ?thesis using assms
    by (simp add: frameAndSend_sent_frame on_end_sent_frame layout closure_of_def)
qed

theorem C3_unmask_recovers_payload_witness:
  "\<not> socket_broken (Sender [[1, 2, 3, 4, 5]] False)
   \<and> unmask
       (wire_mask (sent_frame (Sender [[1, 2, 3, 4, 5]] False)
          (frameAndSend (9, 8, 7, 6) 2 (JBuffer 0) True True False None
             (Sender [[1, 2, 3, 4, 5]] False))))
       (wire_payload (sent_frame (Sender [[1, 2, 3, 4, 5]] False)
          (frameAndSend (9, 8, 7, 6) 2 (JBuffer 0) True True False None
             (Sender [[1, 2, 3, 4, 5]] False))))
     = [1, 2, 3, 4, 5]"
  using C3_unmask_recovers_payload [of "Sender [[1, 2, 3, 4, 5]] False" "(9, 8, 7, 6)" 2
      "JBuffer 0" True None None "\<lparr>j_closure = closure_of 1 JUndefined True False False None, j_cdata = []\<rparr>"]
  by (simp add: payload_of_def buf_read_def mask_of_def closure_of_def Let_def)

text \<open>
  C2. After \<open>send\<close>, \<open>firstFragment\<close> is true exactly when the call's \<open>fin\<close> was true.
  The opcode of the frame is the data opcode (1 for text, 2 for binary) when
  \<open>firstFragment\<close> was true before the call, and 0 otherwise: for a frame written during
  the call it is read from the wire; for a compressed send it is the opcode in the closure
  of the deflate stream that the call starts, and the frame written when a stream ends
  carries its closure's opcode. ping, pong and close give the same result from a state with
  any value of \<open>firstFragment\<close>, and leave that value in place.
\<close>

theorem C2_fragmentation:
  "firstFragment (send fresh data options cb s) = fin_of options
   \<and> (\<not> socket_broken s \<and> (\<not> compress_of options \<or> is_falsy data) \<longrightarrow>
        wire_opcode (sent_frame s (send fresh data options cb s))
          = (if firstFragment s then data_opcode options else 0))
   \<and> (compress_of options \<and> \<not> is_falsy data \<longrightarrow>
        written (send fresh data options cb s) = written s
        \<and> pending (send fresh data options cb s) =
            pending s @ [\<lparr>j_closure = closure_of (if firstFragment s then data_opcode options else 0)
                            data (fin_of options) (mask_of options) True cb,
                          j_cdata = []\<rparr>])
   \<and> (\<not> socket_broken s \<longrightarrow>
        wire_opcode (sent_frame s (on_end fresh j s)) = c_opcode (j_closure j) AND 0x0f)
   \<and> ping fresh d opts (s\<lparr>firstFragment := b\<rparr>) = (ping fresh d opts s)\<lparr>firstFragment := b\<rparr>
   \<and> pong fresh d opts (s\<lparr>firstFragment := b\<rparr>) = (pong fresh d opts s)\<lparr>firstFragment := b\<rparr>
   \<and> close isValid fresh code reason m (s\<lparr>firstFragment := b\<rparr>)
        = map_sum id (\<lambda>s'. s'\<lparr>firstFragment := b\<rparr>) (close isValid fresh code reason m s)"
proof -
  let ?s' = "s\<lparr>firstFragment := fin_of options\<rparr>"
  let ?op = "if firstFragment s then data_opcode options else 0"
  have op: "?op AND 0x0f = ?op"
    by (cases options) (simp_all add: data_opcode_def)
  have 1: "firstFragment (send fresh data options cb s) = fin_of options"
    by (simp add: send_eq)
  have cong: "sent_frame s x = sent_frame ?s' x" for x
    by (rule sent_frame_cong) simp
  have 2: "wire_opcode (sent_frame s (send fresh data options cb s)) = ?op"
    if "\<not> socket_broken s" "\<not> compress_of options \<or> is_falsy data"
  proof (cases "is_falsy data")
    case True
    have "sent_frame ?s' (frameAndSend fresh ?op data (fin_of options) (mask_of options)
            (compress_of options) cb ?s')
          = frame_layout (closure_of ?op data (fin_of options) (mask_of options) False cb)
              (0, 0, 0, 0) []"
      by (rule frameAndSend_falsy_sent_frame) (simp_all add: that(1) True)
    then have "wire_opcode (sent_frame s (send fresh data options cb s))
        = wire_opcode (frame_layout (closure_of ?op data (fin_of options) (mask_of options) False cb)
              (0, 0, 0, 0) [])"
      unfolding send_eq cong by (simp only:)
    also have "\<dots> = ?op AND 0x0f"
      unfolding wire_opcode_layout by (simp add: closure_of_def)
    finally show ?thesis using op by simp
  next
    case False
    then have nc: "\<not> compress_of options" using that(2) by simp
    have "sent_frame ?s' (frameAndSend fresh ?op data (fin_of options) (mask_of options)
            False cb ?s')
          = frame_layout (closure_of ?op data (fin_of options) (mask_of options) False cb)
              (if is_falsy data then (0, 0, 0, 0) else used_mask ?s' fresh)
              (payload_of (store ?s') data)"
      by (rule frameAndSend_sent_frame) (simp add: that(1))
    then have "wire_opcode (sent_frame s (send fresh data options cb s))
        = wire_opcode (frame_layout (closure_of ?op data (fin_of options) (mask_of options) False cb)
              (if is_falsy data then (0, 0, 0, 0) else used_mask ?s' fresh)
              (payload_of (store ?s') data))"
      unfolding send_eq cong using nc by simp
    also have "\<dots> = ?op AND 0x0f"
      unfolding wire_opcode_layout by (simp add: closure_of_def)
    finally show ?thesis using op by simp
  qed
  have 3: "written (send fresh data options cb s) = written s
        \<and> pending (send fresh data options cb s) =
            pending s @ [\<lparr>j_closure = closure_of ?op data (fin_of options) (mask_of options) True cb,
                          j_cdata = []\<rparr>]"
    if "compress_of options" "\<not> is_falsy data"
    using that unfolding send_eq by (simp add: frameAndSend_compress_fields)
  have 4: "wire_opcode (sent_frame s (on_end fresh j s)) = c_opcode (j_closure j) AND 0x0f"
    if "\<not> socket_broken s"
    using that by (simp add: on_end_sent_frame wire_opcode_layout)
  have 5: "ping fresh d opts (s\<lparr>firstFragment := b\<rparr>) = (ping fresh d opts s)\<lparr>firstFragment := b\<rparr>"
    by (simp add: ping_def frameAndSend_firstFragment_commute)
  have 6: "pong fresh d opts (s\<lparr>firstFragment := b\<rparr>) = (pong fresh d opts s)\<lparr>firstFragment := b\<rparr>"
    by (simp add: pong_def frameAndSend_firstFragment_commute)
  have "frameAndSend fresh 8 (JBuffer (length (store s))) True m False None (s\<lparr>firstFragment := b, store := h\<rparr>)
      = (frameAndSend fresh 8 (JBuffer (length (store s))) True m False None (s\<lparr>store := h\<rparr>))\<lparr>firstFragment := b\<rparr>" for h
    using frameAndSend_firstFragment_commute[where s="s\<lparr>store := h\<rparr>" and b=b and data="JBuffer (length (store s))"]
    by (simp add: frameAndSend_def Let_def inner_firstFragment_commute')
  then have 7: "close isValid fresh code reason m (s\<lparr>firstFragment := b\<rparr>)
        = map_sum id (\<lambda>s'. s'\<lparr>firstFragment := b\<rparr>) (close isValid fresh code reason m s)"
    by (simp add: close_def Let_def alloc_def)
  from 1 2 3 4 5 6 7 show ?thesis by blast
qed

theorem C2_fragmentation_witness:
  "wire_opcode (sent_frame (Sender [[1, 2, 3]] False)
      (send (9, 9, 9, 9) (JBuffer 0)
         (Some \<lparr>opt_fin = Some False, opt_mask = False, opt_binary = True, opt_compress = False\<rparr>)
         None (Sender [[1, 2, 3]] False))) = 2
   \<and> firstFragment (send (9, 9, 9, 9) (JBuffer 0)
         (Some \<lparr>opt_fin = Some False, opt_mask = False, opt_binary = True, opt_compress = False\<rparr>)
         None (Sender [[1, 2, 3]] False)) = False
   \<and> pending (send (9, 9, 9, 9) (JString ''a'')
         (Some \<lparr>opt_fin = None, opt_mask = False, opt_binary = False, opt_compress = True\<rparr>)
         None (Sender [] False))
       = [\<lparr>j_closure = closure_of 1 (JString ''a'') True False True None, j_cdata = []\<rparr>]"
  using C2_fragmentation [of "(9, 9, 9, 9)" "JBuffer 0"
      "Some \<lparr>opt_fin = Some False, opt_mask = False, opt_binary = True, opt_compress = False\<rparr>"
      None "Sender [[1, 2, 3]] False"]
    C2_fragmentation [of "(9, 9, 9, 9)" "JString ''a''"
      "Some \<lparr>opt_fin = None, opt_mask = False, opt_binary = False, opt_compress = True\<rparr>"
      None "Sender [] False"]
  by (simp add: fin_of_def compress_of_def data_opcode_def mask_of_def)

text \<open>
  C4. \<open>close\<close> with a number that \<open>isValidErrorCode\<close> rejects (999, when it is not
  valid), or with a code that is not a number, throws before anything is written: the
  result is the error and no state. With a number \<open>c\<close> that \<open>isValidErrorCode\<close> accepts,
  \<open>close\<close> returns: it hands \<open>frameAndSend\<close> a new buffer that holds the two bytes of
  the code (of \<open>c\<close>, or of 1000 when \<open>c\<close> is 0) followed by the bytes of the reason, and on
  a working socket the frame it wrote is a close frame (opcode 8) whose payload, unmasked
  when the frame is masked, is that buffer. The two bytes are the 2-byte big-endian \<open>c\<close>
  for every \<open>c\<close> from 0 to 65535. With the code 1000 and the reason \<open>bye\<close> the frame
  has length 5 and the payload \<open>03 E8\<close> followed by the bytes of \<open>bye\<close>.
\<close>

theorem C4_close_code:
  "(\<not> isValidErrorCode c \<longrightarrow>
      close isValidErrorCode fresh (CodeNumber c) reason m s = Inl InvalidCloseCode)
   \<and> close isValidErrorCode fresh CodeNotNumber reason m s = Inl InvalidCloseCode
   \<and> (isValidErrorCode 1000 \<and> \<not> socket_broken s \<longrightarrow>
        (case close isValidErrorCode fresh (CodeNumber 1000) ''bye'' m s of
           Inl e \<Rightarrow> False
         | Inr s' \<Rightarrow>
             wire_opcode (sent_frame s s') = 0x8
             \<and> wire_length (sent_frame s s') = 5
             \<and> (if m then unmask (wire_mask (sent_frame s s')) (wire_payload (sent_frame s s'))
                 else wire_payload (sent_frame s s'))
               = [0x03, 0xE8, 0x62, 0x79, 0x65]))
   \<and> (isValidErrorCode c \<longrightarrow>
        close isValidErrorCode fresh (CodeNumber c) reason m s =
          Inr (frameAndSend fresh 0x8 (JBuffer (length (store s))) True m False None
                 (s\<lparr>store := store s
                      @ [code_field (if c = 0 then 1000 else c) @ utf8 reason]\<rparr>)))
   \<and> (isValidErrorCode c \<and> \<not> socket_broken s \<longrightarrow>
        (case close isValidErrorCode fresh (CodeNumber c) reason m s of
           Inl e \<Rightarrow> False
         | Inr s' \<Rightarrow>
             wire_opcode (sent_frame s s') = 0x8
             \<and> (if m then unmask (wire_mask (sent_frame s s')) (wire_payload (sent_frame s s'))
                 else wire_payload (sent_frame s s'))
               = code_field (if c = 0 then 1000 else c) @ utf8 reason
             \<and> length (wire_payload (sent_frame s s')) = 2 + length (utf8 reason)))
   \<and> (0 \<le> c \<and> c < 65536 \<longrightarrow>
        code_field c = be_bytes 2 (nat c) \<and> be_nat (code_field c) = nat c)"
proof -
  have 1: "close isValidErrorCode fresh (CodeNumber c) reason m s = Inl InvalidCloseCode"
    if "\<not> isValidErrorCode c"
    using that by (simp add: close_def)
  have 2: "close isValidErrorCode fresh CodeNotNumber reason m s = Inl InvalidCloseCode"
    by (simp add: close_def)
  have bye: "utf8 ''bye'' = [0x62, 0x79, 0x65]"
    by (simp add: utf8_def)
  have 3: "(case close isValidErrorCode fresh (CodeNumber 1000) ''bye'' m s of
           Inl e \<Rightarrow> False
         | Inr s' \<Rightarrow>
             wire_opcode (sent_frame s s') = 0x8
             \<and> wire_length (sent_frame s s') = 5
             \<and> (if m then unmask (wire_mask (sent_frame s s')) (wire_payload (sent_frame s s'))
                 else wire_payload (sent_frame s s'))
               = [0x03, 0xE8, 0x62, 0x79, 0x65])"
    if v: "isValidErrorCode 1000" and w: "\<not> socket_broken s"
  proof -
    let ?cl = "closure_of 0x8 (JBuffer (length (store s))) True m False None"
    let ?p = "[0x03, 0xE8, 0x62, 0x79, 0x65] :: bytes"
    have acc: "CodeNumber 1000 = CodeUndefined
        \<or> (\<exists>c. CodeNumber 1000 = CodeNumber c \<and> isValidErrorCode c)"
      using v by simp
    obtain s' where s': "close isValidErrorCode fresh (CodeNumber 1000) ''bye'' m s = Inr s'"
      using acc by (simp add: close_accepted)
    have f: "sent_frame s s' = frame_layout ?cl (used_mask s fresh) ?p"
      using close_accepted_sent_frame[OF w acc, where fresh = fresh and data = "''bye''" and m = m]
      by (simp add: s' bye code_or_default_def code_field_1000)
    have l: "wire_length (sent_frame s s') = 5"
      unfolding f by (subst wire_length_layout) simp_all
    show ?thesis
      using close_frame_fields[OF w acc, where fresh = fresh and data = "''bye''" and m = m] l
      by (simp add: s' bye code_or_default_def code_field_1000)
  qed
  have acc: "CodeNumber c = CodeUndefined \<or> (\<exists>c'. CodeNumber c = CodeNumber c' \<and> isValidErrorCode c')"
    if "isValidErrorCode c"
    using that by simp
  have cd: "code_or_default (CodeNumber c) = (if c = 0 then 1000 else c)"
    by (simp add: code_or_default_def)
  have 4: "close isValidErrorCode fresh (CodeNumber c) reason m s =
          Inr (frameAndSend fresh 0x8 (JBuffer (length (store s))) True m False None
                 (s\<lparr>store := store s
                      @ [code_field (if c = 0 then 1000 else c) @ utf8 reason]\<rparr>))"
    if v: "isValidErrorCode c"
    using close_accepted[OF acc[OF v], where fresh = fresh and data = reason and m = m and s = s]
    by (simp add: code_or_default_def)
  have 5: "(case close isValidErrorCode fresh (CodeNumber c) reason m s of
           Inl e \<Rightarrow> False
         | Inr s' \<Rightarrow>
             wire_opcode (sent_frame s s') = 0x8
             \<and> (if m then unmask (wire_mask (sent_frame s s')) (wire_payload (sent_frame s s'))
                 else wire_payload (sent_frame s s'))
               = code_field (if c = 0 then 1000 else c) @ utf8 reason
             \<and> length (wire_payload (sent_frame s s')) = 2 + length (utf8 reason))"
    if v: "isValidErrorCode c" and w: "\<not> socket_broken s"
    by (rule close_frame_fields[OF w acc[OF v], unfolded cd])
  have 6: "code_field c = be_bytes 2 (nat c) \<and> be_nat (code_field c) = nat c"
    if "0 \<le> c" "c < 65536"
    using that by (simp add: code_field_be_bytes[symmetric] be_nat_code_field)
  from 1 2 3 4 5 6 show ?thesis by blast
qed

theorem C4_close_code_witness:
  "\<not> (\<lambda>c. 1000 \<le> c \<and> c \<le> 1011) (999 :: int)
   \<and> close (\<lambda>c. 1000 \<le> c \<and> c \<le> 1011) (9, 9, 9, 9) (CodeNumber 999) ''bye'' False
        (Sender [] False) = Inl InvalidCloseCode
   \<and> (case close (\<lambda>c. 1000 \<le> c \<and> c \<le> 1011) (9, 9, 9, 9) (CodeNumber 1000) ''bye'' False
              (Sender [] False) of
         Inl e \<Rightarrow> False
       | Inr s' \<Rightarrow> wire_payload (sent_frame (Sender [] False) s') = [0x03, 0xE8, 0x62, 0x79, 0x65])
   \<and> (case close (\<lambda>c. 1000 \<le> c \<and> c \<le> 1011) (9, 9, 9, 9) (CodeNumber 1001) ''bye'' False
              (Sender [] False) of
         Inl e \<Rightarrow> False
       | Inr s' \<Rightarrow> wire_payload (sent_frame (Sender [] False) s') = [0x03, 0xE9, 0x62, 0x79, 0x65])
   \<and> be_nat (code_field 1001) = 1001"
proof -
  note t1 = C4_close_code [where isValidErrorCode = "\<lambda>c. 1000 \<le> c \<and> c \<le> 1011" and c = 999
      and fresh = "(9, 9, 9, 9)" and reason = "''bye''" and m = False and s = "Sender [] False"]
  note t2 = C4_close_code [where isValidErrorCode = "\<lambda>c. 1000 \<le> c \<and> c \<le> 1011" and c = 1001
      and fresh = "(9, 9, 9, 9)" and reason = "''bye''" and m = False and s = "Sender [] False"]
  have a: "\<not> (\<lambda>c. 1000 \<le> c \<and> c \<le> 1011) (999 :: int)" by simp
  have b: "close (\<lambda>c. 1000 \<le> c \<and> c \<le> 1011) (9, 9, 9, 9) (CodeNumber 999) ''bye'' False
        (Sender [] False) = Inl InvalidCloseCode"
    using t1 [THEN conjunct1] by simp
  have c: "(case close (\<lambda>c. 1000 \<le> c \<and> c \<le> 1011) (9, 9, 9, 9) (CodeNumber 1000) ''bye'' False
              (Sender [] False) of
         Inl e \<Rightarrow> False
       | Inr s' \<Rightarrow> wire_payload (sent_frame (Sender [] False) s') = [0x03, 0xE8, 0x62, 0x79, 0x65])"
    using t1 [THEN conjunct2, THEN conjunct2, THEN conjunct1] by (auto split: sum.splits)
  have d: "(case close (\<lambda>c. 1000 \<le> c \<and> c \<le> 1011) (9, 9, 9, 9) (CodeNumber 1001) ''bye'' False
              (Sender [] False) of
         Inl e \<Rightarrow> False
       | Inr s' \<Rightarrow> wire_payload (sent_frame (Sender [] False) s') = [0x03, 0xE9, 0x62, 0x79, 0x65])"
    using t2 [THEN conjunct2, THEN conjunct2, THEN conjunct2, THEN conjunct2, THEN conjunct1]
    by (auto split: sum.splits simp add: code_field_def utf8_def)
  have pre: "0 \<le> (1001 :: int) \<and> (1001 :: int) < 65536" by simp
  have e: "be_nat (code_field 1001) = 1001"
    using t2 [THEN conjunct2, THEN conjunct2, THEN conjunct2, THEN conjunct2, THEN conjunct2,
        THEN mp, OF pre, THEN conjunct2]
    by simp
  from a b c d e show ?thesis by blast
qed

text \<open>
  C5 (as amended). \<open>close\<close> without a code takes the code 1000 (\<open>code = code || 1000\<close>):
  its payload buffer is \<open>03 E8\<close> followed by the bytes of the reason, the call is the
  call with the code 1000 when that code is valid, and on a working socket the frame
  carries these bytes as its payload (unmasked when the frame is masked). Whatever the
  code, a close frame that is written has a payload of two bytes more than the reason: it
  is never empty.
\<close>

theorem C5_close_default_code:
  "close isValidErrorCode fresh CodeUndefined reason m s =
     Inr (frameAndSend fresh 0x8 (JBuffer (length (store s))) True m False None
            (s\<lparr>store := store s @ [[0x03, 0xE8] @ utf8 reason]\<rparr>))
   \<and> (isValidErrorCode 1000 \<longrightarrow>
        close isValidErrorCode fresh CodeUndefined reason m s
          = close isValidErrorCode fresh (CodeNumber 1000) reason m s)
   \<and> (\<not> socket_broken s \<longrightarrow>
        map_sum id (\<lambda>s'. wire_payload (sent_frame s s'))
          (close isValidErrorCode fresh CodeUndefined reason False s)
        = Inr ([0x03, 0xE8] @ utf8 reason))
   \<and> (\<not> socket_broken s \<longrightarrow>
        map_sum id
          (\<lambda>s'. if m then unmask (wire_mask (sent_frame s s')) (wire_payload (sent_frame s s'))
                else wire_payload (sent_frame s s'))
          (close isValidErrorCode fresh CodeUndefined reason m s)
        = Inr ([0x03, 0xE8] @ utf8 reason))
   \<and> (\<not> socket_broken s \<longrightarrow>
        (case close isValidErrorCode fresh code reason m s of
           Inl e \<Rightarrow> True
         | Inr s' \<Rightarrow>
             length (wire_payload (sent_frame s s')) = 2 + length (utf8 reason)
             \<and> wire_payload (sent_frame s s') \<noteq> []))"
proof -
  have d: "close isValidErrorCode fresh CodeUndefined reason m' s =
     Inr (frameAndSend fresh 0x8 (JBuffer (length (store s))) True m' False None
            (s\<lparr>store := store s @ [[0x03, 0xE8] @ utf8 reason]\<rparr>))" for m'
    using close_accepted[where code = CodeUndefined and isValidErrorCode = isValidErrorCode
        and fresh = fresh and data = reason and m = m' and s = s]
    by (simp add: code_or_default_def code_field_1000)
  have 2: "close isValidErrorCode fresh CodeUndefined reason m s
          = close isValidErrorCode fresh (CodeNumber 1000) reason m s"
    if v: "isValidErrorCode 1000"
    using close_accepted[where code = "CodeNumber 1000" and isValidErrorCode = isValidErrorCode
        and fresh = fresh and data = reason and m = m and s = s] v d[of m]
    by (simp add: code_or_default_def code_field_1000)
  have 4: "map_sum id
          (\<lambda>s'. if m' then unmask (wire_mask (sent_frame s s')) (wire_payload (sent_frame s s'))
                else wire_payload (sent_frame s s'))
          (close isValidErrorCode fresh CodeUndefined reason m' s)
        = Inr ([0x03, 0xE8] @ utf8 reason)" if w: "\<not> socket_broken s" for m'
    using close_frame_fields[OF w, where code = CodeUndefined
        and isValidErrorCode = isValidErrorCode and fresh = fresh and data = reason and m = m']
    by (auto split: sum.splits simp add: code_or_default_def code_field_1000)
  have 3: "map_sum id (\<lambda>s'. wire_payload (sent_frame s s'))
          (close isValidErrorCode fresh CodeUndefined reason False s)
        = Inr ([0x03, 0xE8] @ utf8 reason)" if w: "\<not> socket_broken s"
    using 4[OF w, of False] by simp
  have 5: "(case close isValidErrorCode fresh code reason m s of
           Inl e \<Rightarrow> True
         | Inr s' \<Rightarrow>
             length (wire_payload (sent_frame s s')) = 2 + length (utf8 reason)
             \<and> wire_payload (sent_frame s s') \<noteq> [])" if w: "\<not> socket_broken s"
  proof (cases "code = CodeUndefined \<or> (\<exists>c. code = CodeNumber c \<and> isValidErrorCode c)")
    case True
    then show ?thesis
      using close_frame_fields[OF w True, where fresh = fresh and data = reason and m = m]
      by (auto split: sum.splits)
  next
    case False
    then show ?thesis by (simp add: close_rejected)
  qed
  from d[of m] 2 3 4[of m] 5 show ?thesis by blast
qed

theorem C5_close_default_code_witness:
  "close (\<lambda>c. c = 1000) (9, 9, 9, 9) CodeUndefined ''x'' False (Sender [] False)
     = close (\<lambda>c. c = 1000) (9, 9, 9, 9) (CodeNumber 1000) ''x'' False (Sender [] False)
   \<and> map_sum id (\<lambda>s'. wire_payload (sent_frame (Sender [] False) s'))
        (close (\<lambda>c. c = 1000) (9, 9, 9, 9) CodeUndefined ''x'' False (Sender [] False))
     = Inr [0x03, 0xE8, 0x78]
   \<and> (case close (\<lambda>c. 1000 \<le> c) (9, 9, 9, 9) (CodeNumber 1001) [] False (Sender [] False) of
         Inl e \<Rightarrow> False
       | Inr s' \<Rightarrow> length (wire_payload (sent_frame (Sender [] False) s')) = 2)"
proof -
  note t = C5_close_default_code [where isValidErrorCode = "\<lambda>c. c = 1000"
      and fresh = "(9, 9, 9, 9)" and reason = "''x''" and m = False and s = "Sender [] False",
      THEN conjunct2]
  note u = C5_close_default_code [where isValidErrorCode = "\<lambda>c. 1000 \<le> c"
      and fresh = "(9, 9, 9, 9)" and reason = "[]" and m = False and s = "Sender [] False"
      and code = "CodeNumber 1001",
      THEN conjunct2, THEN conjunct2, THEN conjunct2, THEN conjunct2]
  have a: "close (\<lambda>c. c = 1000) (9, 9, 9, 9) CodeUndefined ''x'' False (Sender [] False)
     = close (\<lambda>c. c = 1000) (9, 9, 9, 9) (CodeNumber 1000) ''x'' False (Sender [] False)"
    using t [THEN conjunct1] by simp
  have b: "map_sum id (\<lambda>s'. wire_payload (sent_frame (Sender [] False) s'))
        (close (\<lambda>c. c = 1000) (9, 9, 9, 9) CodeUndefined ''x'' False (Sender [] False))
     = Inr [0x03, 0xE8, 0x78]"
    using t [THEN conjunct2, THEN conjunct1] by (simp add: utf8_def)
  have acc: "CodeNumber 1001 = CodeUndefined
      \<or> (\<exists>c. CodeNumber 1001 = CodeNumber c \<and> (\<lambda>c. 1000 \<le> c) c)"
    by simp
  have c: "(case close (\<lambda>c. 1000 \<le> c) (9, 9, 9, 9) (CodeNumber 1001) [] False (Sender [] False) of
         Inl e \<Rightarrow> False
       | Inr s' \<Rightarrow> length (wire_payload (sent_frame (Sender [] False) s')) = 2)"
    using u close_accepted[OF acc, where fresh = "(9, 9, 9, 9)" and data = "[]" and m = False
        and s = "Sender [] False"]
    by (simp add: utf8_def)
  from a b c show ?thesis by blast
qed

text \<open>
  The claim as stated fails: \<open>close()\<close> with no code and no reason writes the frame
  \<open>88 02 03 E8\<close>, whose payload is the two bytes of the code 1000.
\<close>

theorem C5_counterexample:
  "map_sum id (sent_frame (Sender [] False))
     (close (\<lambda>c. True) (9, 9, 9, 9) CodeUndefined [] False (Sender [] False))
   = Inr [0x88, 0x02, 0x03, 0xE8]"
  using close_accepted_sent_frame[where s = "Sender [] False" and code = CodeUndefined
      and isValidErrorCode = "\<lambda>c. True" and fresh = "(9, 9, 9, 9)" and data = "[]"
      and m = False]
  by (simp add: frame_layout_def frame_header_def closure_of_def secondByte_of_def
      length_field_def utf8_def code_or_default_def code_field_def)

text \<open>
  C6 (as amended). When a deflate stream signals an error, the handler throws it out of
  the event loop: the error is recorded as uncaught, no completion callback is invoked, no
  error event is emitted on the sender, nothing is written, and the stream is gone. For a
  compressed send in particular: the call returns having written and reported nothing, and
  after any chunks of its stream and then the error, the socket, the callbacks and the
  error events are as they were before the call, the error is uncaught, and the streams
  that were running are the ones still running.
\<close>

theorem C6_deflate_error:
  "(i < length (pending s) \<longrightarrow>
      uncaught (stream_error i err s) = uncaught s @ [err]
      \<and> cb_calls (stream_error i err s) = cb_calls s
      \<and> emitted (stream_error i err s) = emitted s
      \<and> written (stream_error i err s) = written s
      \<and> pending (stream_error i err s) = remove_nth i (pending s))
   \<and> (\<not> is_falsy data \<longrightarrow>
      (let s1 = frameAndSend fresh opcode data fin maskData True cb s;
           s2 = stream_error (length (pending s)) err
                  (foldl (\<lambda>s' c. stream_data (length (pending s)) c s') s1 chunks)
       in written s1 = written s \<and> cb_calls s1 = cb_calls s \<and> emitted s1 = emitted s
          \<and> uncaught s1 = uncaught s
          \<and> written s2 = written s \<and> cb_calls s2 = cb_calls s \<and> emitted s2 = emitted s
          \<and> uncaught s2 = uncaught s @ [err] \<and> pending s2 = pending s))"
proof -
  have 1: "uncaught (stream_error i err s) = uncaught s @ [err]
      \<and> cb_calls (stream_error i err s) = cb_calls s
      \<and> emitted (stream_error i err s) = emitted s
      \<and> written (stream_error i err s) = written s
      \<and> pending (stream_error i err s) = remove_nth i (pending s)"
    if "i < length (pending s)"
    using that by (simp add: stream_error_fields)
  have 2: "(let s1 = frameAndSend fresh opcode data fin maskData True cb s;
           s2 = stream_error (length (pending s)) err
                  (foldl (\<lambda>s' c. stream_data (length (pending s)) c s') s1 chunks)
       in written s1 = written s \<and> cb_calls s1 = cb_calls s \<and> emitted s1 = emitted s
          \<and> uncaught s1 = uncaught s
          \<and> written s2 = written s \<and> cb_calls s2 = cb_calls s \<and> emitted s2 = emitted s
          \<and> uncaught s2 = uncaught s @ [err] \<and> pending s2 = pending s)"
    if nf: "\<not> is_falsy data"
    unfolding Let_def
    using compressed_send_then_error[OF nf, where s = s and fresh = fresh and opcode = opcode
        and fin = fin and maskData = maskData and cb = cb and err = err and chunks = chunks]
      frameAndSend_compress_fields[OF nf, where s = s and fresh = fresh and opcode = opcode
        and fin = fin and maskData = maskData and cb = cb]
    by simp
  from 1 2 show ?thesis by blast
qed

theorem C6_deflate_error_witness:
  "uncaught (stream_error 0 DeflateError
      ((Sender [] False)\<lparr>pending := [\<lparr>j_closure = closure_of 1 (JString ''a'') True False True (Some 7),
                                      j_cdata = []\<rparr>]\<rparr>)) = [DeflateError]
   \<and> cb_calls (stream_error 0 DeflateError
      ((Sender [] False)\<lparr>pending := [\<lparr>j_closure = closure_of 1 (JString ''a'') True False True (Some 7),
                                      j_cdata = []\<rparr>]\<rparr>)) = []
   \<and> cb_calls (stream_error 0 DeflateError
        (foldl (\<lambda>s' c. stream_data 0 c s')
           (frameAndSend (9, 9, 9, 9) 1 (JString ''a'') True False True (Some 7) (Sender [] False))
           [[0x4a], [0x04]])) = []
   \<and> uncaught (stream_error 0 DeflateError
        (foldl (\<lambda>s' c. stream_data 0 c s')
           (frameAndSend (9, 9, 9, 9) 1 (JString ''a'') True False True (Some 7) (Sender [] False))
           [[0x4a], [0x04]])) = [DeflateError]"
  using C6_deflate_error [where i = 0 and err = DeflateError
      and s = "(Sender [] False)\<lparr>pending :=
                 [\<lparr>j_closure = closure_of 1 (JString ''a'') True False True (Some 7),
                   j_cdata = []\<rparr>]\<rparr>"]
    C6_deflate_error [where data = "JString ''a''" and s = "Sender [] False"
      and fresh = "(9, 9, 9, 9)" and opcode = 1 and fin = True and maskData = False
      and cb = "Some 7" and err = DeflateError and chunks = "[[0x4a], [0x04]]"]
  by (simp add: Let_def)

text \<open>
  The claim as stated fails: after a compressed send with the completion callback 7 whose
  deflate stream signals an error, no callback has been invoked and no error event has
  been emitted; the error was thrown by the handler.
\<close>

theorem C6_counterexample:
  "cb_calls (stream_error 0 DeflateError
      (send (9, 9, 9, 9) (JString ''a'')
         (Some \<lparr>opt_fin = None, opt_mask = False, opt_binary = False, opt_compress = True\<rparr>)
         (Some 7) (Sender [] False))) = []
   \<and> emitted (stream_error 0 DeflateError
      (send (9, 9, 9, 9) (JString ''a'')
         (Some \<lparr>opt_fin = None, opt_mask = False, opt_binary = False, opt_compress = True\<rparr>)
         (Some 7) (Sender [] False))) = []
   \<and> uncaught (stream_error 0 DeflateError
      (send (9, 9, 9, 9) (JString ''a'')
         (Some \<lparr>opt_fin = None, opt_mask = False, opt_binary = False, opt_compress = True\<rparr>)
         (Some 7) (Sender [] False))) = [DeflateError]"
proof -
  let ?o = "Some \<lparr>opt_fin = None, opt_mask = False, opt_binary = False, opt_compress = True\<rparr>"
  let ?s1 = "send (9, 9, 9, 9) (JString ''a'') ?o (Some 7) (Sender [] False)"
  have f: "\<not> is_falsy (JString ''a'')" by simp
  have c: "compress_of ?o" by (simp add: compress_of_def)
  have p: "0 < length (pending ?s1)"
    unfolding send_eq using c by (simp add: frameAndSend_compress_fields(1)[OF f])
  have "cb_calls ?s1 = []" "emitted ?s1 = []" "uncaught ?s1 = []"
    unfolding send_eq using c by (simp_all add: frameAndSend_compress_fields[OF f])
  then show ?thesis
    by (simp add: stream_error_fields[OF p])
qed



text \<open>
  C8 (as amended). A send whose payload is falsy (absent, or the empty string) makes one
  write: the two header bytes, the opcode with the fin bit and the mask bit, and four zero
  bytes when masked; it does so whatever \<open>compress\<close> is, and touches neither the store nor
  the deflate streams. A payload of length zero that is not falsy (an empty Buffer or
  typed array) takes the general path: without compression its frame has the same two
  header bytes, followed by the sender's mask key when masked.
\<close>

theorem C8_empty_payload:
  "(is_falsy data \<longrightarrow>
      frameAndSend fresh opcode data fin maskData compress cb s =
        try_write ([opcode OR (if fin then 0x80 else 0), (if maskData then 0x80 else 0)]
                   @ (if maskData then [0, 0, 0, 0] else [])) cb s)
   \<and> (is_falsy data \<and> \<not> socket_broken s \<longrightarrow>
      sent s (frameAndSend fresh opcode data fin maskData compress cb s) =
        [([opcode OR (if fin then 0x80 else 0), (if maskData then 0x80 else 0)]
          @ (if maskData then [0, 0, 0, 0] else []), cb)]
      \<and> store (frameAndSend fresh opcode data fin maskData compress cb s) = store s
      \<and> pending (frameAndSend fresh opcode data fin maskData compress cb s) = pending s)
   \<and> (\<not> is_falsy data \<and> payload_of (store s) data = [] \<and> \<not> socket_broken s \<longrightarrow>
      sent_frame s (frameAndSend fresh opcode data fin maskData False cb s) =
        [opcode OR (if fin then 0x80 else 0), (if maskData then 0x80 else 0)]
        @ (if maskData
           then [mask_at (used_mask s fresh) 0, mask_at (used_mask s fresh) 1,
                 mask_at (used_mask s fresh) 2, mask_at (used_mask s fresh) 3]
           else []))"
proof -
  have 2: "sent s (try_write b cb s) = [(b, cb)]" if "\<not> socket_broken s" for b
    using that by (simp add: try_write_working sent_def)
  have 3: "sent_frame s (frameAndSend fresh opcode data fin maskData False cb s) =
        [opcode OR (if fin then 0x80 else 0), (if maskData then 0x80 else 0)]
        @ (if maskData
           then [mask_at (used_mask s fresh) 0, mask_at (used_mask s fresh) 1,
                 mask_at (used_mask s fresh) 2, mask_at (used_mask s fresh) 3]
           else [])"
    if "\<not> is_falsy data" "payload_of (store s) data = []" "\<not> socket_broken s"
    using that by (simp add: frameAndSend_sent_frame frame_layout_empty closure_of_def)
  show ?thesis
    using 3 by (simp add: frameAndSend_falsy_bytes 2)
qed

theorem C8_empty_payload_witness:
  "sent (Sender [] False)
      (frameAndSend (1, 2, 3, 4) 1 (JString []) True True True None (Sender [] False))
     = [([0x81, 0x80, 0, 0, 0, 0], None)]
   \<and> sent_frame (Sender [[]] False)
      (frameAndSend (1, 2, 3, 4) 2 (JBuffer 0) True False False None (Sender [[]] False))
     = [0x82, 0x00]"
proof -
  have a: "sent (Sender [] False)
      (frameAndSend (1, 2, 3, 4) 1 (JString []) True True True None (Sender [] False))
     = [([0x81, 0x80, 0, 0, 0, 0], None)]"
    using C8_empty_payload [where data = "JString []" and s = "Sender [] False"
        and fresh = "(1, 2, 3, 4)" and opcode = 1 and fin = True and maskData = True
        and compress = True and cb = None, THEN conjunct2, THEN conjunct1]
    by simp
  have b: "sent_frame (Sender [[]] False)
      (frameAndSend (1, 2, 3, 4) 2 (JBuffer 0) True False False None (Sender [[]] False))
     = [0x82, 0x00]"
    using C8_empty_payload [where data = "JBuffer 0" and s = "Sender [[]] False"
        and fresh = "(1, 2, 3, 4)" and opcode = 2 and fin = True and maskData = False
        and cb = None, THEN conjunct2, THEN conjunct2]
    by (simp add: payload_of_def buf_read_def)
  from a b show ?thesis by (rule conjI)
qed

text \<open>
  The claim as stated fails for an empty Buffer: \<open>!message_data\<close> is false for every
  Buffer, so a masked send of \<open>new Buffer(0)\<close> writes the mask key \<open>01 02 03 04\<close> after
  the header, not four zero bytes.
\<close>

theorem C8_counterexample:
  "sent_frame (Sender [[]] False)
     (send (1, 2, 3, 4) (JBuffer 0)
        (Some \<lparr>opt_fin = None, opt_mask = True, opt_binary = False, opt_compress = False\<rparr>)
        None (Sender [[]] False))
   = [0x81, 0x80, 1, 2, 3, 4]"
proof -
  let ?o = "Some \<lparr>opt_fin = None, opt_mask = True, opt_binary = False, opt_compress = False\<rparr>"
  let ?s = "Sender [[]] False"
  let ?s' = "?s\<lparr>firstFragment := fin_of ?o\<rparr>"
  have cong: "sent_frame ?s x = sent_frame ?s' x" for x
    by (rule sent_frame_cong) simp
  have "sent_frame ?s' (frameAndSend (1, 2, 3, 4) 1 (JBuffer 0) True True False None ?s')
      = frame_layout (closure_of 1 (JBuffer 0) True True False None)
          (if is_falsy (JBuffer 0) then (0, 0, 0, 0) else used_mask ?s' (1, 2, 3, 4))
          (payload_of (store ?s') (JBuffer 0))"
    by (rule frameAndSend_sent_frame) simp
  then show ?thesis
    unfolding send_eq cong
    by (simp add: fin_of_def mask_of_def compress_of_def data_opcode_def payload_of_def
        buf_read_def frame_layout_empty closure_of_def used_mask_def)
qed




text \<open>
  C10. send, ping and pong with a Buffer leave the store as it was, with or without
  compression; close, the end of a deflate stream and \<open>frameAndSend\<close> with any payload
  leave every buffer that existed before the call as it was. The closure overwrites the
  buffer it is given only when \<open>maskData\<close> and \<open>canModifyData\<close> hold and the payload has
  32768 bytes or more; \<open>canModifyData\<close> is false for a Buffer argument, and that buffer is
  what the closure is called with.
\<close>

theorem C10_caller_buffer_unchanged:
  "store (send fresh (JBuffer a) options cb s) = store s
   \<and> store (ping fresh (JBuffer a) opts s) = store s
   \<and> store (pong fresh (JBuffer a) opts s) = store s
   \<and> (case close isValidErrorCode fresh code reason m s of
         Inl e \<Rightarrow> True
       | Inr s' \<Rightarrow> take (length (store s)) (store s') = store s)
   \<and> take (length (store s)) (store (on_end fresh j s)) = store s
   \<and> take (length (store s)) (store (frameAndSend fresh opcode data fin maskData compress cb s))
       = store s
   \<and> store (frame_and_send_inner cl fresh a s) =
       (if c_maskData cl \<and> c_canModifyData cl \<and> \<not> length (buf_read (store s) a) < 32768
        then (store s)[a := xor_mask (used_mask s fresh) (buf_read (store s) a)]
        else store s)
   \<and> c_canModifyData (closure_of opcode (JBuffer a) fin maskData compress cb) = False
   \<and> frameAndSend fresh opcode (JBuffer a) fin maskData False cb s =
       frame_and_send_inner (closure_of opcode (JBuffer a) fin maskData False cb) fresh a s"
proof -
  have 1: "store (send fresh (JBuffer a) options cb s) = store s"
    by (simp add: send_eq frameAndSend_Buffer_store)
  have 2: "store (ping fresh (JBuffer a) opts s) = store s"
    by (simp add: ping_def or_empty_string_def frameAndSend_Buffer_store)
  have 3: "store (pong fresh (JBuffer a) opts s) = store s"
    by (simp add: pong_def or_empty_string_def frameAndSend_Buffer_store)
  have "take (length (store s))
          (store (frameAndSend fresh 8 (JBuffer (length (store s))) True m False None
                    (s\<lparr>store := store s @ [b]\<rparr>))) = store s" for b
    by (simp add: frameAndSend_Buffer_store)
  then have 4: "(case close isValidErrorCode fresh code reason m s of
         Inl e \<Rightarrow> True
       | Inr s' \<Rightarrow> take (length (store s)) (store s') = store s)"
    by (simp add: close_def Let_def alloc_def)
  have 5: "take (length (store s)) (store (on_end fresh j s)) = store s"
    by (simp add: on_end_inner alloc_inner_store)
  have 7: "c_canModifyData (closure_of opcode (JBuffer a) fin maskData compress cb) = False"
    by (simp add: closure_of_def)
  have 8: "frameAndSend fresh opcode (JBuffer a) fin maskData False cb s =
       frame_and_send_inner (closure_of opcode (JBuffer a) fin maskData False cb) fresh a s"
    by (simp add: frameAndSend_inner)
  from 1 2 3 4 5 frameAndSend_store_prefix[of s fresh opcode data fin maskData compress cb]
    inner_store[of cl fresh a s] 7 8
  show ?thesis by blast
qed

end
